theory Spec2Isabelle
  imports Main "HOL-Library.Word"
begin

section \<open>Constants of the missing headers\<close>

text \<open>
  \<^verbatim>\<open>term.c\<close> takes its sizes from \<^verbatim>\<open>term.h\<close> and \<^verbatim>\<open>tprotocol.h\<close>, which are not part of
  the sources at hand. Every macro whose value is unknown is a field of the record below
  and every function of the model takes the record as its first argument; a theorem
  states explicitly what it needs of the values.
\<close>

record term_config =
  MAX_PROTOCOL_PAYLOAD_SIZE :: nat
  TERM_SCREEN_SIZE_X :: nat
  TERM_SCREEN_SIZE_Y :: nat
  TERM_POS_X :: nat
  TERM_POS_Y :: nat
  TERM_ESC_BUFFLINE_SIZE :: nat
  TERM_INPUT_BUFFER_SIZE :: nat

text \<open>
  Modelled from the spec: the macro \<^verbatim>\<open>TERM_SCREEN_SIZE\<close> (the length of \<^verbatim>\<open>screen[]\<close>) is
  missing; the spec describes the screen as a grid of rows times columns.
\<close>

definition TERM_SCREEN_SIZE :: "term_config \<Rightarrow> nat" where
  "TERM_SCREEN_SIZE cfg = TERM_SCREEN_SIZE_X cfg * TERM_SCREEN_SIZE_Y cfg"

text \<open>
  Modelled from the spec: the macro \<^verbatim>\<open>TERM_ESC_CHAR\<close> is missing; the spec calls it the ESC
  character and the comments of \<^verbatim>\<open>term_init\<close> write the sequences as \<^verbatim>\<open>"\x1B" "A"\<close>.
\<close>

definition TERM_ESC_CHAR :: char where
  "TERM_ESC_CHAR = CHR 0x1B"

definition NUL :: char where
  "NUL = CHR 0x00"

section \<open>Command channel\<close>

text \<open>
  \<^verbatim>\<open>TransmissionProtocol\<close> is declared in \<^verbatim>\<open>tprotocol.h\<close>; \<^verbatim>\<open>term.c\<close> uses four 16-bit
  fields and a byte array \<^verbatim>\<open>payload\<close> into which at most \<^verbatim>\<open>MAX_PROTOCOL_PAYLOAD_SIZE\<close>
  bytes are copied.
\<close>

record TransmissionProtocol =
  command_id :: "16 word"
  payload_size :: "16 word"
  bytes_read :: "16 word"
  final_checksum :: "16 word"
  payload :: "8 word list"

text \<open>The file-level statics \<^verbatim>\<open>protocolBuffers[2]\<close>, the two indices, the flag, the counter.\<close>

record channel =
  protocolBuffers :: "TransmissionProtocol list"
  protocolReadIndex :: "8 word"
  protocolWriteIndex :: "8 word"
  protocolBufferReady :: bool
  protocolOverwriteCount :: "32 word"

text \<open>
  \<^verbatim>\<open>memcpy(dst, src, n)\<close> on arrays: the first \<open>n\<close> bytes of \<open>dst\<close> are replaced, the rest
  stays. Copying more than either array holds is undefined in C and \<open>None\<close> here.
\<close>

definition memcpy :: "'a list \<Rightarrow> 'a list \<Rightarrow> nat \<Rightarrow> 'a list option" where
  "memcpy dst src n =
     (if n \<le> length dst \<and> n \<le> length src then Some (take n src @ drop n dst) else None)"

text \<open>
  The producer, \<^verbatim>\<open>handle_protocol_command\<close>. The four header fields are copied as they
  are; only the local \<^verbatim>\<open>size\<close> that bounds the \<^verbatim>\<open>memcpy\<close> is clamped. An index outside
  the two-element array is a fault (\<open>None\<close>).
\<close>

definition handle_protocol_command ::
  "term_config \<Rightarrow> TransmissionProtocol \<Rightarrow> channel \<Rightarrow> channel option" where
  "handle_protocol_command cfg protocol ch =
     (let writeIndex = protocolWriteIndex ch in
      if unat writeIndex < length (protocolBuffers ch) then
        let writeBuffer = (protocolBuffers ch ! unat writeIndex)
              \<lparr>command_id := command_id protocol,
               payload_size := payload_size protocol,
               bytes_read := bytes_read protocol,
               final_checksum := final_checksum protocol\<rparr>;
            size0 = payload_size protocol;
            size' = (if unat size0 > MAX_PROTOCOL_PAYLOAD_SIZE cfg
                     then (word_of_nat (MAX_PROTOCOL_PAYLOAD_SIZE cfg) :: 16 word)
                     else size0)
        in case memcpy (payload writeBuffer) (payload protocol) (unat size') of
             None \<Rightarrow> None
           | Some bytes \<Rightarrow>
               let ch1 = ch\<lparr>protocolBuffers :=
                             (protocolBuffers ch)[unat writeIndex := writeBuffer\<lparr>payload := bytes\<rparr>]\<rparr>;
                   ch2 = (if protocolBufferReady ch1
                          then ch1\<lparr>protocolOverwriteCount := protocolOverwriteCount ch1 + 1\<rparr>
                          else ch1);
                   readIndex = protocolReadIndex ch2
               in Some (ch2\<lparr>protocolReadIndex := writeIndex,
                             protocolWriteIndex := readIndex,
                             protocolBufferReady := True\<rparr>)
      else None)"

text \<open>
  The consumer's critical section at the head of \<^verbatim>\<open>term_loop\<close>: the three locals
  \<^verbatim>\<open>protocolSnapshot\<close> (initialised to zero), \<^verbatim>\<open>protocolReady\<close> and
  \<^verbatim>\<open>overwriteCountSnapshot\<close>, and the channel it leaves behind.
\<close>

definition zero_protocol :: "term_config \<Rightarrow> TransmissionProtocol" where
  "zero_protocol cfg =
     \<lparr>command_id = 0, payload_size = 0, bytes_read = 0, final_checksum = 0,
      payload = replicate (MAX_PROTOCOL_PAYLOAD_SIZE cfg) 0\<rparr>"

definition term_loop_snapshot ::
  "term_config \<Rightarrow> channel \<Rightarrow> (TransmissionProtocol \<times> bool \<times> 32 word \<times> channel) option" where
  "term_loop_snapshot cfg ch =
     (if protocolBufferReady ch then
        (let readIndex = protocolReadIndex ch in
         if unat readIndex < length (protocolBuffers ch) then
           Some (protocolBuffers ch ! unat readIndex, True, protocolOverwriteCount ch,
                 ch\<lparr>protocolBufferReady := False\<rparr>)
         else None)
      else Some (zero_protocol cfg, False, protocolOverwriteCount ch, ch))"

text \<open>The static initialisers of the channel.\<close>

definition channel_init :: "term_config \<Rightarrow> channel" where
  "channel_init cfg =
     \<lparr>protocolBuffers = [zero_protocol cfg, zero_protocol cfg],
      protocolReadIndex = 0, protocolWriteIndex = 1,
      protocolBufferReady = False, protocolOverwriteCount = 0\<rparr>"

text \<open>
  What the declarations guarantee of a channel: two slots of full payload capacity and
  the two indices naming one slot each.
\<close>

definition channel_ok :: "term_config \<Rightarrow> channel \<Rightarrow> bool" where
  "channel_ok cfg ch =
     (length (protocolBuffers ch) = 2
      \<and> length (payload (protocolBuffers ch ! 0)) = MAX_PROTOCOL_PAYLOAD_SIZE cfg
      \<and> length (payload (protocolBuffers ch ! 1)) = MAX_PROTOCOL_PAYLOAD_SIZE cfg
      \<and> unat (protocolReadIndex ch) < 2 \<and> unat (protocolWriteIndex ch) < 2
      \<and> protocolReadIndex ch \<noteq> protocolWriteIndex ch)"

definition protocol_ok :: "term_config \<Rightarrow> TransmissionProtocol \<Rightarrow> bool" where
  "protocol_ok cfg p = (length (payload p) = MAX_PROTOCOL_PAYLOAD_SIZE cfg)"

text \<open>The number of payload bytes the producer copies for a declared size.\<close>

definition copied_bytes :: "term_config \<Rightarrow> TransmissionProtocol \<Rightarrow> nat" where
  "copied_bytes cfg p = min (unat (payload_size p)) (MAX_PROTOCOL_PAYLOAD_SIZE cfg)"

text \<open>Publishing a list of records one after the other, with no drain in between.\<close>

fun publish_all :: "term_config \<Rightarrow> TransmissionProtocol list \<Rightarrow> channel \<Rightarrow> channel option" where
  "publish_all cfg [] ch = Some ch"
| "publish_all cfg (p # ps) ch =
     (case handle_protocol_command cfg p ch of
        None \<Rightarrow> None
      | Some ch' \<Rightarrow> publish_all cfg ps ch')"

text \<open>One publish followed by one drain: the record the consumer sees, if any.\<close>

definition publish_then_drain ::
  "term_config \<Rightarrow> TransmissionProtocol \<Rightarrow> channel \<Rightarrow> TransmissionProtocol option" where
  "publish_then_drain cfg p ch =
     (case handle_protocol_command cfg p ch of
        None \<Rightarrow> None
      | Some ch' \<Rightarrow>
          (case term_loop_snapshot cfg ch' of
             None \<Rightarrow> None
           | Some (snapshot, ready, count, ch'') \<Rightarrow> if ready then Some snapshot else None))"


text \<open>
  A drained record \<open>r\<close> carries the published record \<open>p\<close>: the header fields are the
  same and so are the payload bytes that the producer copies.
\<close>

definition carries :: "term_config \<Rightarrow> TransmissionProtocol \<Rightarrow> TransmissionProtocol \<Rightarrow> bool" where
  "carries cfg p r =
     (command_id r = command_id p \<and> payload_size r = payload_size p
      \<and> bytes_read r = bytes_read p \<and> final_checksum r = final_checksum p
      \<and> take (copied_bytes cfg p) (payload r) = take (copied_bytes cfg p) (payload p))"

section \<open>Terminal emulator\<close>

text \<open>
  The display subsystem (\<^verbatim>\<open>display_termChar\<close>, \<^verbatim>\<open>display_termCursor\<close>,
  \<^verbatim>\<open>display_termRefresh\<close>) and the pixel buffer that \<^verbatim>\<open>termScrollupBuffer\<close> moves belong to
  the display driver. The model records every call made to it, oldest first.
\<close>

datatype display_op =
  TermChar nat nat char
  | TermCursor nat nat
  | TermRefresh
  | ScrollupBuffer

text \<open>
  The file-level statics of the terminal. \<^verbatim>\<open>char\<close> is the 8-bit \<^typ>\<open>char\<close>, read as an
  unsigned value (the target is an ARM core, where plain \<^verbatim>\<open>char\<close> is unsigned); the cursor
  coordinates are \<^verbatim>\<open>uint8_t\<close>, \<^verbatim>\<open>inputLength\<close> is a \<^verbatim>\<open>size_t\<close> that never leaves the
  buffer's range.
\<close>

record term_state =
  screen :: "char list"
  cursorX :: "8 word"
  cursorY :: "8 word"
  prevCursorX :: "8 word"
  prevCursorY :: "8 word"
  inputBuffer :: "char list"
  inputLength :: nat
  display :: "display_op list"

definition display_termChar :: "nat \<Rightarrow> nat \<Rightarrow> char \<Rightarrow> term_state \<Rightarrow> term_state" where
  "display_termChar x y chr st = st\<lparr>display := display st @ [TermChar x y chr]\<rparr>"

definition display_termCursor :: "nat \<Rightarrow> nat \<Rightarrow> term_state \<Rightarrow> term_state" where
  "display_termCursor x y st = st\<lparr>display := display st @ [TermCursor x y]\<rparr>"

definition display_termRefresh :: "term_state \<Rightarrow> term_state" where
  "display_termRefresh st = st\<lparr>display := display st @ [TermRefresh]\<rparr>"

definition termScrollupBuffer :: "term_state \<Rightarrow> term_state" where
  "termScrollupBuffer st = st\<lparr>display := display st @ [ScrollupBuffer]\<rparr>"

text \<open>
  \<^verbatim>\<open>termScrollUp\<close>: the \<^verbatim>\<open>memmove\<close> of all rows but the first to the front, the \<^verbatim>\<open>memset\<close>
  of the last row, then the scroll of the pixel buffer. Moving outside the array is a
  fault.
\<close>

definition termScrollUp :: "term_config \<Rightarrow> term_state \<Rightarrow> term_state option" where
  "termScrollUp cfg st =
     (let n = TERM_SCREEN_SIZE cfg - TERM_SCREEN_SIZE_X cfg in
      if TERM_SCREEN_SIZE_X cfg \<le> TERM_SCREEN_SIZE cfg \<and> TERM_SCREEN_SIZE cfg \<le> length (screen st)
      then
        let moved = take n (drop (TERM_SCREEN_SIZE_X cfg) (screen st)) @ drop n (screen st);
            blanked = take n moved @ replicate (TERM_SCREEN_SIZE_X cfg) NUL
                      @ drop (n + TERM_SCREEN_SIZE_X cfg) moved
        in Some (termScrollupBuffer (st\<lparr>screen := blanked\<rparr>))
      else None)"

text \<open>\<^verbatim>\<open>termPutChar\<close>. A write outside \<^verbatim>\<open>screen[]\<close> is a fault.\<close>

definition termPutChar :: "term_config \<Rightarrow> char \<Rightarrow> term_state \<Rightarrow> term_state option" where
  "termPutChar cfg chr st =
     (let idx = unat (cursorY st) * TERM_SCREEN_SIZE_X cfg + unat (cursorX st) in
      if idx < length (screen st) then
        let st1 = display_termChar (unat (cursorX st)) (unat (cursorY st)) chr
                    (st\<lparr>screen := (screen st)[idx := chr]\<rparr>);
            st2 = st1\<lparr>cursorX := cursorX st1 + 1\<rparr>
        in if unat (cursorX st2) \<ge> TERM_SCREEN_SIZE_X cfg then
             let st3 = st2\<lparr>cursorX := 0, cursorY := cursorY st2 + 1\<rparr> in
             if unat (cursorY st3) \<ge> TERM_SCREEN_SIZE_Y cfg then
               (case termScrollUp cfg st3 of
                  None \<Rightarrow> None
                | Some st4 \<Rightarrow>
                    Some (st4\<lparr>cursorY := word_of_int (int (TERM_SCREEN_SIZE_Y cfg) - 1)\<rparr>))
             else Some st3
           else Some st2
      else None)"

text \<open>\<^verbatim>\<open>termRenderChar\<close>: erase the old block cursor, render, draw the new block cursor.\<close>

definition termRenderChar :: "term_config \<Rightarrow> char \<Rightarrow> term_state \<Rightarrow> term_state option" where
  "termRenderChar cfg chr st =
     (let st0 = display_termChar (unat (prevCursorX st)) (unat (prevCursorY st)) CHR '' '' st;
          rendered =
            (if chr = CHR 0x0A \<or> chr = CHR 0x0D then
               let st1 = st0\<lparr>cursorX := 0, cursorY := cursorY st0 + 1\<rparr> in
               if unat (cursorY st1) \<ge> TERM_SCREEN_SIZE_Y cfg then
                 (case termScrollUp cfg st1 of
                    None \<Rightarrow> None
                  | Some st2 \<Rightarrow>
                      Some (st2\<lparr>cursorY := word_of_int (int (TERM_SCREEN_SIZE_Y cfg) - 1)\<rparr>))
               else Some st1
             else if chr \<noteq> NUL then termPutChar cfg chr st0
             else Some st0)
      in case rendered of
           None \<Rightarrow> None
         | Some st3 \<Rightarrow>
             Some ((display_termCursor (unat (cursorX st3)) (unat (cursorY st3)) st3)
                     \<lparr>prevCursorX := cursorX st3, prevCursorY := cursorY st3\<rparr>))"

text \<open>
  A \<^verbatim>\<open>for\<close> loop over a range of indices whose body may fault: the body is run on the
  indices in order, threading the state.
\<close>

fun for_each :: "nat list \<Rightarrow> (nat \<Rightarrow> 's \<Rightarrow> 's option) \<Rightarrow> 's \<Rightarrow> 's option" where
  "for_each [] body st = Some st"
| "for_each (i # rest) body st =
     (case body i st of None \<Rightarrow> None | Some st' \<Rightarrow> for_each rest body st')"

text \<open>The body of the clearing loops: \<^verbatim>\<open>screen[posY * X + posX] = 0\<close> and a blank on the display.\<close>

definition clear_cell :: "term_config \<Rightarrow> nat \<Rightarrow> nat \<Rightarrow> term_state \<Rightarrow> term_state option" where
  "clear_cell cfg posX posY st =
     (let idx = posY * TERM_SCREEN_SIZE_X cfg + posX in
      if idx < length (screen st) then
        Some (display_termChar posX posY CHR '' '' (st\<lparr>screen := (screen st)[idx := NUL]\<rparr>))
      else None)"

text \<open>
  \<^verbatim>\<open>vt52ProcessSequence(seq, length)\<close>; the list \<open>seq\<close> holds the \<^verbatim>\<open>length\<close> accumulated
  bytes. The loops of \<^verbatim>\<open>E\<close>, \<^verbatim>\<open>J\<close> and \<^verbatim>\<open>K\<close> start from the cursor as it is on entry;
  their bodies do not move it.
\<close>

definition vt52ProcessSequence :: "term_config \<Rightarrow> string \<Rightarrow> term_state \<Rightarrow> term_state option" where
  "vt52ProcessSequence cfg seq st =
     (if length seq < 2 then Some st
      else
        let command = seq ! 1 in
        if command = CHR ''A'' then
          termRenderChar cfg NUL (if unat (cursorY st) > 0 then st\<lparr>cursorY := cursorY st - 1\<rparr> else st)
        else if command = CHR ''B'' then
          termRenderChar cfg NUL
            (if int (unat (cursorY st)) < int (TERM_SCREEN_SIZE_Y cfg) - 1
             then st\<lparr>cursorY := cursorY st + 1\<rparr> else st)
        else if command = CHR ''C'' then
          termRenderChar cfg NUL
            (if int (unat (cursorX st)) < int (TERM_SCREEN_SIZE_X cfg) - 1
             then st\<lparr>cursorX := cursorX st + 1\<rparr> else st)
        else if command = CHR ''D'' then
          termRenderChar cfg NUL (if unat (cursorX st) > 0 then st\<lparr>cursorX := cursorX st - 1\<rparr> else st)
        else if command = CHR ''E'' then
          (case termRenderChar cfg NUL (st\<lparr>cursorX := 0, cursorY := 0\<rparr>) of
             None \<Rightarrow> None
           | Some st1 \<Rightarrow>
               for_each [0 ..< TERM_SCREEN_SIZE_Y cfg]
                 (\<lambda>posY. for_each [0 ..< TERM_SCREEN_SIZE_X cfg] (\<lambda>posX. clear_cell cfg posX posY))
                 st1)
        else if command = CHR ''H'' then
          termRenderChar cfg NUL (st\<lparr>cursorX := 0, cursorY := 0\<rparr>)
        else if command = CHR ''J'' then
          for_each [unat (cursorY st) ..< TERM_SCREEN_SIZE_Y cfg]
            (\<lambda>posY. for_each [unat (cursorX st) ..< TERM_SCREEN_SIZE_X cfg]
                       (\<lambda>posX. clear_cell cfg posX posY))
            st
        else if command = CHR ''K'' then
          for_each [unat (cursorX st) ..< TERM_SCREEN_SIZE_X cfg]
            (\<lambda>posX. clear_cell cfg posX (unat (cursorY st)))
            st
        else if command = CHR ''Y'' then
          (if length seq = 4 then
             let row = int (of_char (seq ! 2) :: nat) - int (TERM_POS_Y cfg);
                 col = int (of_char (seq ! 3) :: nat) - int (TERM_POS_X cfg)
             in termRenderChar cfg NUL
                  (if row \<ge> 0 \<and> row < int (TERM_SCREEN_SIZE_Y cfg) \<and> col \<ge> 0
                      \<and> col < int (TERM_SCREEN_SIZE_X cfg)
                   then st\<lparr>cursorY := word_of_int row, cursorX := word_of_int col\<rparr>
                   else st)
           else Some st)
        else Some st)"

text \<open>The flush loops of \<^verbatim>\<open>term_printString\<close>: every buffered byte goes through \<^verbatim>\<open>termRenderChar\<close>.\<close>

fun render_chars :: "term_config \<Rightarrow> string \<Rightarrow> term_state \<Rightarrow> term_state option" where
  "render_chars cfg [] st = Some st"
| "render_chars cfg (c # cs) st =
     (case termRenderChar cfg c st of None \<Rightarrow> None | Some st' \<Rightarrow> render_chars cfg cs st')"

datatype esc_mode = STATE_NORMAL | STATE_ESC

text \<open>
  The body of the \<^verbatim>\<open>while\<close> loop of \<^verbatim>\<open>term_printString\<close>, in three parts. The locals are
  the mode, the bytes \<^verbatim>\<open>escBuffer[0..escLen)\<close> as a list (so \<^verbatim>\<open>escLen\<close> is its length), and
  the terminal. First the test for a complete sequence, made after a byte was stored:
\<close>

definition esc_complete ::
  "term_config \<Rightarrow> string \<Rightarrow> esc_mode \<times> term_state \<Rightarrow> (esc_mode \<times> term_state) option" where
  "esc_complete cfg escBuffer s =
     (if length escBuffer = 2 then
        (if escBuffer ! 1 = CHR ''Y'' then Some s
         else
           (case vt52ProcessSequence cfg escBuffer (snd s) of
              None \<Rightarrow> None
            | Some st' \<Rightarrow> Some (STATE_NORMAL, st')))
      else if escBuffer ! 1 = CHR ''Y'' \<and> length escBuffer = 4 then
        (case vt52ProcessSequence cfg escBuffer (snd s) of
           None \<Rightarrow> None
         | Some st' \<Rightarrow> Some (STATE_NORMAL, st'))
      else Some s)"

text \<open>Then the test for a full buffer, which flushes the bytes as text:\<close>

definition esc_overflow ::
  "term_config \<Rightarrow> string \<Rightarrow> esc_mode \<times> term_state
     \<Rightarrow> (esc_mode \<times> string \<times> term_state) option" where
  "esc_overflow cfg escBuffer s =
     (if length escBuffer \<ge> TERM_ESC_BUFFLINE_SIZE cfg then
        (case render_chars cfg escBuffer (snd s) of
           None \<Rightarrow> None
         | Some st' \<Rightarrow> Some (STATE_NORMAL, escBuffer, st'))
      else Some (fst s, escBuffer, snd s))"

text \<open>And the whole body. Storing a byte beyond \<^verbatim>\<open>escBuffer\<close> is a fault.\<close>

definition print_step ::
  "term_config \<Rightarrow> char \<Rightarrow> esc_mode \<times> string \<times> term_state
     \<Rightarrow> (esc_mode \<times> string \<times> term_state) option" where
  "print_step cfg chr s =
     (case s of (state, escBuffer, st) \<Rightarrow>
        if state = STATE_NORMAL then
          (if chr = TERM_ESC_CHAR then
             (if 0 < TERM_ESC_BUFFLINE_SIZE cfg then Some (STATE_ESC, [chr], st) else None)
           else
             (case termRenderChar cfg chr st of
                None \<Rightarrow> None
              | Some st' \<Rightarrow> Some (STATE_NORMAL, escBuffer, st')))
        else
          (if length escBuffer < TERM_ESC_BUFFLINE_SIZE cfg then
             (case esc_complete cfg (escBuffer @ [chr]) (state, st) of
                None \<Rightarrow> None
              | Some s' \<Rightarrow> esc_overflow cfg (escBuffer @ [chr]) s')
           else None))"

text \<open>The \<^verbatim>\<open>while (*str)\<close> loop: it stops at the end of the list or at the first NUL.\<close>

fun print_loop ::
  "term_config \<Rightarrow> string \<Rightarrow> esc_mode \<times> string \<times> term_state
     \<Rightarrow> (esc_mode \<times> string \<times> term_state) option" where
  "print_loop cfg [] s = Some s"
| "print_loop cfg (chr # str) s =
     (if chr = NUL then Some s
      else (case print_step cfg chr s of None \<Rightarrow> None | Some s' \<Rightarrow> print_loop cfg str s'))"

definition term_printString :: "term_config \<Rightarrow> string \<Rightarrow> term_state \<Rightarrow> term_state option" where
  "term_printString cfg str st =
     (case print_loop cfg str (STATE_NORMAL, [], st) of
        None \<Rightarrow> None
      | Some (state, escBuffer, st1) \<Rightarrow>
          (case (if state = STATE_ESC then render_chars cfg escBuffer st1 else Some st1) of
             None \<Rightarrow> None
           | Some st2 \<Rightarrow> Some (display_termRefresh st2)))"

section \<open>Line editor and command registry\<close>

text \<open>The string a \<^verbatim>\<open>char\<close> array holds: its bytes up to the first NUL.\<close>

definition c_string :: "char list \<Rightarrow> string" where
  "c_string buf = takeWhile (\<lambda>c. c \<noteq> NUL) buf"

text \<open>\<^verbatim>\<open>isspace\<close> of the C locale: space, \<^verbatim>\<open>\t\<close>, \<^verbatim>\<open>\n\<close>, \<^verbatim>\<open>\v\<close>, \<^verbatim>\<open>\f\<close>, \<^verbatim>\<open>\r\<close>.\<close>

definition isspace :: "char \<Rightarrow> bool" where
  "isspace c =
     (c = CHR '' '' \<or> c = CHR 0x09 \<or> c = CHR 0x0A \<or> c = CHR 0x0B \<or> c = CHR 0x0C \<or> c = CHR 0x0D)"

text \<open>
  \<^verbatim>\<open>sscanf(inputBuffer, "%63s %63[^\n]", command, arg)\<close> on two zeroed arrays, after the C
  standard: \<^verbatim>\<open>%63s\<close> skips white space and takes at most 63 bytes that are not white
  space (at the end of the input nothing is stored and the scan stops); the blank skips
  white space; \<^verbatim>\<open>%63[^\n]\<close> takes at most 63 bytes up to a newline (when there is none to
  take, \<^verbatim>\<open>arg\<close> stays empty).
\<close>

definition sscanf_command_arg :: "string \<Rightarrow> string \<times> string" where
  "sscanf_command_arg input =
     (let s1 = dropWhile isspace input in
      if s1 = [] then ([], [])
      else
        let command = take 63 (takeWhile (\<lambda>c. \<not> isspace c) s1);
            s2 = dropWhile isspace (drop (length command) s1);
            arg = take 63 (takeWhile (\<lambda>c. c \<noteq> CHR 0x0A) s2)
        in (command, arg))"

text \<open>
  An entry of the command table: the name and the handler. A handler is code of the
  caller; it receives its argument string and may do to the terminal whatever the public
  functions allow, faults included.
\<close>

type_synonym handler = "string \<Rightarrow> term_state \<Rightarrow> term_state option"

type_synonym Command = "string \<times> handler"

text \<open>
  The first loop over the table: every entry whose name \<^verbatim>\<open>strcmp\<close> finds equal to
  \<^verbatim>\<open>command\<close> is called with \<^verbatim>\<open>arg\<close>, and \<^verbatim>\<open>commandFound\<close> is raised.
\<close>

fun run_matching ::
  "Command list \<Rightarrow> string \<Rightarrow> string \<Rightarrow> bool \<times> term_state \<Rightarrow> (bool \<times> term_state) option" where
  "run_matching [] command arg s = Some s"
| "run_matching (c # cs) command arg s =
     (if command = c_string (fst c) then
        (case snd c arg (snd s) of
           None \<Rightarrow> None
         | Some st' \<Rightarrow> run_matching cs command arg (True, st'))
      else run_matching cs command arg s)"

text \<open>
  The second loop: every entry with an empty name is called with \<^verbatim>\<open>inputBuffer\<close>, that
  is, with the string the buffer holds at the time of the call.
\<close>

fun run_fallback :: "Command list \<Rightarrow> term_state \<Rightarrow> term_state option" where
  "run_fallback [] st = Some st"
| "run_fallback (c # cs) st =
     (if length (c_string (fst c)) = 0 then
        (case snd c (c_string (inputBuffer st)) st of
           None \<Rightarrow> None
         | Some st' \<Rightarrow> run_fallback cs st')
      else run_fallback cs st)"

text \<open>The common tail of the backspace branch: draw the cursor, remember it, refresh.\<close>

definition backspace_finish :: "term_state \<Rightarrow> term_state" where
  "backspace_finish st =
     display_termRefresh
       ((display_termCursor (unat (cursorX st)) (unat (cursorY st)) st)
          \<lparr>prevCursorX := cursorX st, prevCursorY := cursorY st\<rparr>)"

text \<open>The erasure of the cell under the moved cursor, then the tail.\<close>

definition backspace_erase :: "term_config \<Rightarrow> term_state \<Rightarrow> term_state option" where
  "backspace_erase cfg st =
     (let idx = unat (cursorY st) * TERM_SCREEN_SIZE_X cfg + unat (cursorX st) in
      if idx < length (screen st) then
        Some (backspace_finish
                (display_termChar (unat (cursorX st)) (unat (cursorY st)) CHR '' ''
                   (st\<lparr>screen := (screen st)[idx := NUL]\<rparr>)))
      else None)"

text \<open>The end of the newline branch: reset the input buffer, print the prompt, refresh.\<close>

definition finish_line :: "term_config \<Rightarrow> term_state \<Rightarrow> term_state option" where
  "finish_line cfg st =
     (case term_printString cfg ''> ''
             (st\<lparr>inputBuffer := replicate (TERM_INPUT_BUFFER_SIZE cfg) NUL, inputLength := 0\<rparr>) of
        None \<Rightarrow> None
      | Some st' \<Rightarrow> Some (display_termRefresh st'))"

text \<open>
  \<^verbatim>\<open>termInputChar\<close>, with the command table (\<^verbatim>\<open>commands\<close>, \<^verbatim>\<open>numCommands\<close>) as an argument.
  The early \<^verbatim>\<open>return\<close> at the top-left corner is the branch that gives \<open>Some st2\<close>
  without the tail.
\<close>

definition termInputChar ::
  "term_config \<Rightarrow> Command list \<Rightarrow> char \<Rightarrow> term_state \<Rightarrow> term_state option" where
  "termInputChar cfg commands chr st =
     (if chr = CHR 0x08 then
        (let st0 = display_termChar (unat (prevCursorX st)) (unat (prevCursorY st)) CHR '' '' st in
         if inputLength st0 > 0 then
           (let st1 = st0\<lparr>inputLength := inputLength st0 - 1\<rparr> in
            if inputLength st1 < length (inputBuffer st1) then
              (let st2 = st1\<lparr>inputBuffer := (inputBuffer st1)[inputLength st1 := NUL]\<rparr> in
               if cursorX st2 = 0 then
                 (if unat (cursorY st2) > 0 then
                    backspace_erase cfg
                      (st2\<lparr>cursorY := cursorY st2 - 1,
                            cursorX := word_of_int (int (TERM_SCREEN_SIZE_X cfg) - 1)\<rparr>)
                  else Some st2)
               else backspace_erase cfg (st2\<lparr>cursorX := cursorX st2 - 1\<rparr>))
            else None)
         else Some (backspace_finish st0))
      else if chr = CHR 0x0A \<or> chr = CHR 0x0D then
        (case termRenderChar cfg (CHR 0x0A) st of
           None \<Rightarrow> None
         | Some st1 \<Rightarrow>
             (case sscanf_command_arg (c_string (inputBuffer st1)) of
                (command, arg) \<Rightarrow>
                  (case run_matching commands command arg (False, st1) of
                     None \<Rightarrow> None
                   | Some (commandFound, st2) \<Rightarrow>
                       (case (if \<not> commandFound \<and> length command > 0
                              then run_fallback commands st2 else Some st2) of
                          None \<Rightarrow> None
                        | Some st3 \<Rightarrow> finish_line cfg st3))))
      else if inputLength st < TERM_INPUT_BUFFER_SIZE cfg - 1 then
        (if inputLength st < length (inputBuffer st) then
           (case termRenderChar cfg chr
                   (st\<lparr>inputBuffer := (inputBuffer st)[inputLength st := chr],
                        inputLength := inputLength st + 1\<rparr>) of
              None \<Rightarrow> None
            | Some st1 \<Rightarrow> Some (display_termRefresh st1))
         else None)
      else Some st)"

text \<open>A line of keystrokes, one call of \<^verbatim>\<open>termInputChar\<close> each.\<close>

fun type_keys :: "term_config \<Rightarrow> Command list \<Rightarrow> string \<Rightarrow> term_state \<Rightarrow> term_state option" where
  "type_keys cfg commands [] st = Some st"
| "type_keys cfg commands (k # ks) st =
     (case termInputChar cfg commands k st of
        None \<Rightarrow> None
      | Some st' \<Rightarrow> type_keys cfg commands ks st')"

section \<open>The dispatch of a line, in the words of the specification\<close>

text \<open>
  The specification splits the line into a command token, the first word delimited by
  white space, and an argument, the rest of the line after the white space that follows
  the token.
\<close>

definition first_token :: "string \<Rightarrow> string" where
  "first_token line = takeWhile (\<lambda>c. \<not> isspace c) (dropWhile isspace line)"

definition remainder_arg :: "string \<Rightarrow> string" where
  "remainder_arg line =
     dropWhile isspace (dropWhile (\<lambda>c. \<not> isspace c) (dropWhile isspace line))"

text \<open>Calling handlers one after the other with the same argument.\<close>

fun call_handlers :: "handler list \<Rightarrow> string \<Rightarrow> term_state \<Rightarrow> term_state option" where
  "call_handlers [] arg st = Some st"
| "call_handlers (h # hs) arg st =
     (case h arg st of None \<Rightarrow> None | Some st' \<Rightarrow> call_handlers hs arg st')"

definition handlers_named :: "string \<Rightarrow> Command list \<Rightarrow> handler list" where
  "handlers_named name commands = map snd (filter (\<lambda>c. c_string (fst c) = name) commands)"

text \<open>
  Every entry named like the token is invoked with the argument, in the order of the
  registry; if there is none and the token is not empty, every entry with the empty name
  is invoked with the whole line.
\<close>

definition dispatch_line :: "Command list \<Rightarrow> string \<Rightarrow> term_state \<Rightarrow> term_state option" where
  "dispatch_line commands line st =
     (if handlers_named (first_token line) commands \<noteq> [] then
        call_handlers (handlers_named (first_token line) commands) (remainder_arg line) st
      else if first_token line \<noteq> [] then
        call_handlers (handlers_named [] commands) line st
      else Some st)"

text \<open>The newline branch of the line editor with that dispatch.\<close>

definition newline_as_specified ::
  "term_config \<Rightarrow> Command list \<Rightarrow> term_state \<Rightarrow> term_state option" where
  "newline_as_specified cfg commands st =
     (case termRenderChar cfg (CHR 0x0A) st of
        None \<Rightarrow> None
      | Some st1 \<Rightarrow>
          (case dispatch_line commands (c_string (inputBuffer st)) st1 of
             None \<Rightarrow> None
           | Some st2 \<Rightarrow> finish_line cfg st2))"

section \<open>The dispatch of a line with bounded token and argument\<close>

text \<open>
  The specification bounds the lengths: the command token is the first word cut to at
  most 63 bytes; the argument is what follows those bytes, after the white space, up to
  a newline and cut to at most 63 bytes.
\<close>

definition command_token :: "string \<Rightarrow> string" where
  "command_token line = take 63 (first_token line)"

definition command_arg :: "string \<Rightarrow> string" where
  "command_arg line =
     take 63 (takeWhile (\<lambda>c. c \<noteq> CHR 0x0A)
                (dropWhile isspace (drop (length (command_token line)) (dropWhile isspace line))))"

text \<open>
  Calling handlers one after the other, each with the string that the input buffer holds
  when its turn comes.
\<close>

fun call_with_buffer :: "handler list \<Rightarrow> term_state \<Rightarrow> term_state option" where
  "call_with_buffer [] st = Some st"
| "call_with_buffer (h # hs) st =
     (case h (c_string (inputBuffer st)) st of
        None \<Rightarrow> None
      | Some st' \<Rightarrow> call_with_buffer hs st')"

definition dispatch_bounded :: "Command list \<Rightarrow> string \<Rightarrow> term_state \<Rightarrow> term_state option" where
  "dispatch_bounded commands line st =
     (if handlers_named (command_token line) commands \<noteq> [] then
        call_handlers (handlers_named (command_token line) commands) (command_arg line) st
      else if command_token line \<noteq> [] then
        call_with_buffer (handlers_named [] commands) st
      else Some st)"

section \<open>The string printer, in the words of the specification\<close>

text \<open>
  The specification reads a string as a sequence of tokens: a character outside a
  sequence is text; ESC with one command byte is a sequence, ESC Y with its two
  coordinate bytes is one; bytes of a sequence that the end of the string leaves
  unfinished are text.
\<close>

datatype token = Text char | Sequence string

fun tokenize :: "string \<Rightarrow> token list" where
  "tokenize [] = []"
| "tokenize (c # cs) =
     (if c \<noteq> TERM_ESC_CHAR then Text c # tokenize cs
      else
        (case cs of
           [] \<Rightarrow> [Text c]
         | d # ds \<Rightarrow>
             if d \<noteq> CHR ''Y'' then Sequence [c, d] # tokenize ds
             else
               (case ds of
                  r # k # rest \<Rightarrow> Sequence [c, d, r, k] # tokenize rest
                | _ \<Rightarrow> map Text (c # cs))))"

fun token_bytes :: "token \<Rightarrow> string" where
  "token_bytes (Text c) = [c]"
| "token_bytes (Sequence s) = s"

text \<open>Text is rendered, a sequence is interpreted.\<close>

fun run_token :: "term_config \<Rightarrow> token \<Rightarrow> term_state \<Rightarrow> term_state option" where
  "run_token cfg (Text c) st = termRenderChar cfg c st"
| "run_token cfg (Sequence s) st = vt52ProcessSequence cfg s st"

fun run_tokens :: "term_config \<Rightarrow> token list \<Rightarrow> term_state \<Rightarrow> term_state option" where
  "run_tokens cfg [] st = Some st"
| "run_tokens cfg (t # ts) st =
     (case run_token cfg t st of None \<Rightarrow> None | Some st' \<Rightarrow> run_tokens cfg ts st')"

text \<open>A full-string render: every token of the string in order, then one refresh.\<close>

definition print_as_specified :: "term_config \<Rightarrow> string \<Rightarrow> term_state \<Rightarrow> term_state option" where
  "print_as_specified cfg str st =
     (case run_tokens cfg (tokenize (c_string str)) st of
        None \<Rightarrow> None
      | Some st' \<Rightarrow> Some (display_termRefresh st'))"

text \<open>
  The end of \<^verbatim>\<open>term_printString\<close> as a function of the locals its loop leaves: the flush of
  an unfinished sequence.
\<close>

definition flush_pending ::
  "term_config \<Rightarrow> esc_mode \<times> string \<times> term_state \<Rightarrow> term_state option" where
  "flush_pending cfg s =
     (case s of (state, escBuffer, st) \<Rightarrow>
        if state = STATE_ESC then render_chars cfg escBuffer st else Some st)"

section \<open>Well-formed configurations and states\<close>

text \<open>
  The grid is not empty, a \<^verbatim>\<open>uint8_t\<close> cursor can reach every cell of it, and
  \<^verbatim>\<open>escBuffer\<close> has room for ESC and one command byte.
\<close>

definition config_ok :: "term_config \<Rightarrow> bool" where
  "config_ok cfg =
     (0 < TERM_SCREEN_SIZE_X cfg \<and> TERM_SCREEN_SIZE_X cfg < 256
      \<and> 0 < TERM_SCREEN_SIZE_Y cfg \<and> TERM_SCREEN_SIZE_Y cfg < 256
      \<and> 2 \<le> TERM_ESC_BUFFLINE_SIZE cfg)"

text \<open>The cursor is on the grid, and \<^verbatim>\<open>screen[]\<close> has its declared length.\<close>

definition cursor_in_bounds :: "term_config \<Rightarrow> term_state \<Rightarrow> bool" where
  "cursor_in_bounds cfg st =
     (unat (cursorX st) < TERM_SCREEN_SIZE_X cfg \<and> unat (cursorY st) < TERM_SCREEN_SIZE_Y cfg)"

definition term_ok :: "term_config \<Rightarrow> term_state \<Rightarrow> bool" where
  "term_ok cfg st = (length (screen st) = TERM_SCREEN_SIZE cfg \<and> cursor_in_bounds cfg st)"

text \<open>
  While a sequence is being accumulated, \<^verbatim>\<open>escBuffer\<close> holds at least the ESC and has
  room for one more byte.
\<close>

definition esc_pending_ok :: "term_config \<Rightarrow> esc_mode \<Rightarrow> string \<Rightarrow> bool" where
  "esc_pending_ok cfg state escBuffer =
     (state = STATE_NORMAL
      \<or> (0 < length escBuffer \<and> length escBuffer < TERM_ESC_BUFFLINE_SIZE cfg))"

text \<open>What was sent to the display between an earlier state and a later one.\<close>

definition display_since :: "term_state \<Rightarrow> term_state \<Rightarrow> display_op list" where
  "display_since st st' = drop (length (display st)) (display st')"

definition display_extends :: "term_state \<Rightarrow> term_state \<Rightarrow> bool" where
  "display_extends st st' = (display st' = display st @ display_since st st')"

text \<open>
  The state \<open>st'\<close> comes from \<open>st\<close> by rendering: it is well formed, the line editor's
  buffer is as it was, and the display was sent calls but no request for a refresh.
\<close>

definition rendered :: "term_config \<Rightarrow> term_state \<Rightarrow> term_state \<Rightarrow> bool" where
  "rendered cfg st st' =
     (term_ok cfg st' \<and> inputBuffer st' = inputBuffer st \<and> inputLength st' = inputLength st
      \<and> display_extends st st' \<and> TermRefresh \<notin> set (display_since st st'))"

text \<open>The static initialisers of the terminal, with nothing yet sent to the display.\<close>

definition term_state_init :: "term_config \<Rightarrow> term_state" where
  "term_state_init cfg =
     \<lparr>screen = replicate (TERM_SCREEN_SIZE cfg) NUL,
      cursorX = 0, cursorY = 0, prevCursorX = 0, prevCursorY = 0,
      inputBuffer = replicate (TERM_INPUT_BUFFER_SIZE cfg) NUL,
      inputLength = 0, display = []\<rparr>"

text \<open>
  The rendering operations of the emulator, to speak of sequences of them.
\<close>

datatype render_op =
  PutChar char
  | RenderChar char
  | ProcessSequence string
  | PrintString string

fun run_op :: "term_config \<Rightarrow> render_op \<Rightarrow> term_state \<Rightarrow> term_state option" where
  "run_op cfg (PutChar chr) st = termPutChar cfg chr st"
| "run_op cfg (RenderChar chr) st = termRenderChar cfg chr st"
| "run_op cfg (ProcessSequence seq) st = vt52ProcessSequence cfg seq st"
| "run_op cfg (PrintString str) st = term_printString cfg str st"

fun run_ops :: "term_config \<Rightarrow> render_op list \<Rightarrow> term_state \<Rightarrow> term_state option" where
  "run_ops cfg [] st = Some st"
| "run_ops cfg (op # ops) st =
     (case run_op cfg op st of None \<Rightarrow> None | Some st' \<Rightarrow> run_ops cfg ops st')"

text \<open>Concrete values on which the theorems below are instantiated.\<close>

definition example_config :: term_config where
  "example_config =
     \<lparr>MAX_PROTOCOL_PAYLOAD_SIZE = 4, TERM_SCREEN_SIZE_X = 8, TERM_SCREEN_SIZE_Y = 4,
      TERM_POS_X = 32, TERM_POS_Y = 32, TERM_ESC_BUFFLINE_SIZE = 16,
      TERM_INPUT_BUFFER_SIZE = 64\<rparr>"

definition example_protocol :: "16 word \<Rightarrow> 16 word \<Rightarrow> TransmissionProtocol" where
  "example_protocol cid sz =
     \<lparr>command_id = cid, payload_size = sz, bytes_read = 12, final_checksum = 0x1234,
      payload = [0xDE, 0xAD, 0xBE, 0xEF]\<rparr>"

text \<open>The initial terminal with the cursor moved to a cell of the 8 by 4 example grid.\<close>

definition example_state :: "8 word \<Rightarrow> 8 word \<Rightarrow> term_state" where
  "example_state x y = (term_state_init example_config)\<lparr>cursorX := x, cursorY := y\<rparr>"

text \<open>The initial terminal after one character was put into the line buffer, cursor at the origin.\<close>

definition example_typed :: term_state where
  "example_typed =
     (term_state_init example_config)
       \<lparr>inputBuffer := CHR ''a'' # replicate 63 NUL, inputLength := 1\<rparr>"

text \<open>The initial terminal of the example with a line already typed into the buffer.\<close>

definition example_line :: "string \<Rightarrow> term_state" where
  "example_line line =
     (term_state_init example_config)
       \<lparr>inputBuffer := line @ replicate (64 - length line) NUL, inputLength := length line\<rparr>"

text \<open>
  A handler that leaves a trace of its call on the display: its tag, then its argument.
\<close>

definition example_handler :: "char \<Rightarrow> handler" where
  "example_handler tag arg st = Some (st\<lparr>display := display st @ map (TermChar 0 0) (tag # arg)\<rparr>)"

definition example_commands :: "Command list" where
  "example_commands = [(''help'', example_handler CHR ''h''), ([], example_handler CHR ''u'')]"

text \<open>The example with an input buffer of 128 bytes, and a line in that buffer.\<close>

definition example_wide :: term_config where
  "example_wide = example_config\<lparr>TERM_INPUT_BUFFER_SIZE := 128\<rparr>"

definition wide_line :: "string \<Rightarrow> term_state" where
  "wide_line line =
     (term_state_init example_wide)
       \<lparr>inputBuffer := line @ replicate (128 - length line) NUL, inputLength := length line\<rparr>"

text \<open>A registry whose first entry is named with 63 letters, and a token of 64.\<close>

definition long_commands :: "Command list" where
  "long_commands = [(replicate 63 CHR ''a'', example_handler CHR ''m''), ([], example_handler CHR ''u'')]"

text \<open>
  A handler that clears the input buffer, as the public \<^verbatim>\<open>term_clearInputBuffer\<close> does, after
  leaving its trace; and a registry with two fallback entries, this one first.
\<close>

definition wiping_handler :: "char \<Rightarrow> handler" where
  "wiping_handler tag arg st =
     Some (st\<lparr>display := display st @ map (TermChar 0 0) (tag # arg),
               inputBuffer := replicate 64 NUL, inputLength := 0\<rparr>)"

definition wiping_commands :: "Command list" where
  "wiping_commands = [([], wiping_handler CHR ''w''), ([], example_handler CHR ''u'')]"

section \<open>Verification\<close>

subsection \<open>The producer and the consumer\<close>

lemma unat_clamped_size:
  "unat (if unat (s :: 16 word) > m then (word_of_nat m :: 16 word) else s) = min (unat s) m"
proof (cases "unat s > m")
  case True
  then have "m \<le> unat s" by simp
  then have "unat (word_of_nat m :: 16 word) = m" by (rule le_unat_uoi)
  with True show ?thesis by simp
next
  case False
  then show ?thesis by simp
qed

lemma word8_lt2_cases: "unat (w :: 8 word) < 2 \<Longrightarrow> w = 0 \<or> w = 1"
proof -
  assume "unat w < 2"
  then have "unat w = 0 \<or> unat w = 1" by arith
  then show ?thesis
  proof
    assume "unat w = 0" then show ?thesis by (simp add: unat_0_iff)
  next
    assume "unat w = 1"
    then have "unat w = unat (1 :: 8 word)" by simp
    then have "w = 1" by (simp only: word_unat_eq_iff)
    then show ?thesis by simp
  qed
qed

lemma handle_protocol_command_effect:
  assumes ok: "channel_ok cfg ch" and p: "protocol_ok cfg p"
  shows "\<exists>ch'. handle_protocol_command cfg p ch = Some ch'
           \<and> channel_ok cfg ch'
           \<and> protocolBufferReady ch'
           \<and> protocolReadIndex ch' = protocolWriteIndex ch
           \<and> protocolOverwriteCount ch' =
               (if protocolBufferReady ch then protocolOverwriteCount ch + 1
                else protocolOverwriteCount ch)
           \<and> command_id (protocolBuffers ch' ! unat (protocolReadIndex ch')) = command_id p
           \<and> payload_size (protocolBuffers ch' ! unat (protocolReadIndex ch')) = payload_size p
           \<and> bytes_read (protocolBuffers ch' ! unat (protocolReadIndex ch')) = bytes_read p
           \<and> final_checksum (protocolBuffers ch' ! unat (protocolReadIndex ch')) = final_checksum p
           \<and> payload (protocolBuffers ch' ! unat (protocolReadIndex ch')) =
               take (copied_bytes cfg p) (payload p)
               @ drop (copied_bytes cfg p) (payload (protocolBuffers ch ! unat (protocolWriteIndex ch)))"
proof -
  from ok have len: "length (protocolBuffers ch) = 2"
    and w2: "unat (protocolWriteIndex ch) < 2" and r2: "unat (protocolReadIndex ch) < 2"
    and ne: "protocolReadIndex ch \<noteq> protocolWriteIndex ch"
    and l0: "length (payload (protocolBuffers ch ! 0)) = MAX_PROTOCOL_PAYLOAD_SIZE cfg"
    and l1: "length (payload (protocolBuffers ch ! 1)) = MAX_PROTOCOL_PAYLOAD_SIZE cfg"
    by (simp_all add: channel_ok_def)
  from w2 have wc: "protocolWriteIndex ch = 0 \<or> protocolWriteIndex ch = 1" by (rule word8_lt2_cases)
  from r2 have rc: "protocolReadIndex ch = 0 \<or> protocolReadIndex ch = 1" by (rule word8_lt2_cases)
  from p have lp: "length (payload p) = MAX_PROTOCOL_PAYLOAD_SIZE cfg" by (simp add: protocol_ok_def)
  from wc show ?thesis
  proof
    assume w: "protocolWriteIndex ch = 0"
    with rc ne have r: "protocolReadIndex ch = 1" by auto
    show ?thesis
      using w r len l0 l1 lp
      by (simp add: handle_protocol_command_def Let_def memcpy_def unat_clamped_size
          copied_bytes_def channel_ok_def)
  next
    assume w: "protocolWriteIndex ch = 1"
    with rc ne have r: "protocolReadIndex ch = 0" by auto
    show ?thesis
      using w r len l0 l1 lp
      by (simp add: handle_protocol_command_def Let_def memcpy_def unat_clamped_size
          copied_bytes_def channel_ok_def)
  qed
qed

lemma term_loop_snapshot_ready:
  assumes "channel_ok cfg ch" and "protocolBufferReady ch"
  shows "term_loop_snapshot cfg ch =
           Some (protocolBuffers ch ! unat (protocolReadIndex ch), True,
                 protocolOverwriteCount ch, ch\<lparr>protocolBufferReady := False\<rparr>)"
  using assms by (simp add: term_loop_snapshot_def channel_ok_def)

lemma term_loop_snapshot_empty:
  "\<not> protocolBufferReady ch \<Longrightarrow>
   term_loop_snapshot cfg ch = Some (zero_protocol cfg, False, protocolOverwriteCount ch, ch)"
  by (simp add: term_loop_snapshot_def)

lemma handle_protocol_command_carries:
  assumes ok: "channel_ok cfg ch" and p: "protocol_ok cfg p"
  shows "\<exists>ch'. handle_protocol_command cfg p ch = Some ch'
           \<and> channel_ok cfg ch' \<and> protocolBufferReady ch'
           \<and> protocolOverwriteCount ch' =
               (if protocolBufferReady ch then protocolOverwriteCount ch + 1
                else protocolOverwriteCount ch)
           \<and> carries cfg p (protocolBuffers ch' ! unat (protocolReadIndex ch'))"
proof -
  from handle_protocol_command_effect [OF ok p] obtain ch' where
    h: "handle_protocol_command cfg p ch = Some ch'" "channel_ok cfg ch'" "protocolBufferReady ch'"
      "protocolOverwriteCount ch' =
               (if protocolBufferReady ch then protocolOverwriteCount ch + 1
                else protocolOverwriteCount ch)"
      "command_id (protocolBuffers ch' ! unat (protocolReadIndex ch')) = command_id p"
      "payload_size (protocolBuffers ch' ! unat (protocolReadIndex ch')) = payload_size p"
      "bytes_read (protocolBuffers ch' ! unat (protocolReadIndex ch')) = bytes_read p"
      "final_checksum (protocolBuffers ch' ! unat (protocolReadIndex ch')) = final_checksum p"
      "payload (protocolBuffers ch' ! unat (protocolReadIndex ch')) =
               take (copied_bytes cfg p) (payload p)
               @ drop (copied_bytes cfg p) (payload (protocolBuffers ch ! unat (protocolWriteIndex ch)))"
    by blast
  from p have "copied_bytes cfg p \<le> length (payload p)"
    by (simp add: protocol_ok_def copied_bytes_def)
  with h(5-9) have "carries cfg p (protocolBuffers ch' ! unat (protocolReadIndex ch'))"
    by (simp add: carries_def)
  with h(1-4) show ?thesis by blast
qed

lemma publish_all_ready:
  assumes "channel_ok cfg ch" and "protocolBufferReady ch" and "\<forall>p\<in>set ps. protocol_ok cfg p"
  shows "\<exists>ch'. publish_all cfg ps ch = Some ch' \<and> channel_ok cfg ch' \<and> protocolBufferReady ch'
           \<and> protocolOverwriteCount ch' = protocolOverwriteCount ch + of_nat (length ps)
           \<and> (ps \<noteq> [] \<longrightarrow> carries cfg (last ps) (protocolBuffers ch' ! unat (protocolReadIndex ch')))"
  using assms
proof (induction ps arbitrary: ch)
  case Nil
  then show ?case by simp
next
  case (Cons p ps)
  from Cons.prems have p: "protocol_ok cfg p" and ps: "\<forall>q\<in>set ps. protocol_ok cfg q" by simp_all
  from handle_protocol_command_carries [OF Cons.prems(1) p] Cons.prems(2)
  obtain ch1 where s1: "handle_protocol_command cfg p ch = Some ch1" "channel_ok cfg ch1"
      "protocolBufferReady ch1" "protocolOverwriteCount ch1 = protocolOverwriteCount ch + 1"
      "carries cfg p (protocolBuffers ch1 ! unat (protocolReadIndex ch1))"
    by auto
  from Cons.IH [OF s1(2) s1(3) ps] obtain ch' where
    s2: "publish_all cfg ps ch1 = Some ch'" "channel_ok cfg ch'" "protocolBufferReady ch'"
      "protocolOverwriteCount ch' = protocolOverwriteCount ch1 + of_nat (length ps)"
      "ps \<noteq> [] \<longrightarrow> carries cfg (last ps) (protocolBuffers ch' ! unat (protocolReadIndex ch'))"
    by blast
  have last: "carries cfg (last (p # ps)) (protocolBuffers ch' ! unat (protocolReadIndex ch'))"
  proof (cases ps)
    case Nil
    with s2(1) have "ch' = ch1" by simp
    with s1(5) Nil show ?thesis by simp
  next
    case (Cons q qs)
    with s2(5) show ?thesis by simp
  qed
  from s1(1) s2(1) have "publish_all cfg (p # ps) ch = Some ch'" by simp
  moreover from s1(4) s2(4) have
    "protocolOverwriteCount ch' = protocolOverwriteCount ch + of_nat (length (p # ps))"
    by simp
  ultimately show ?case using s2(2,3) last by blast
qed

lemma publish_all_drained:
  assumes ok: "channel_ok cfg ch" and nr: "\<not> protocolBufferReady ch"
    and ps: "\<forall>p\<in>set (p # ps). protocol_ok cfg p"
  shows "\<exists>ch'. publish_all cfg (p # ps) ch = Some ch' \<and> channel_ok cfg ch' \<and> protocolBufferReady ch'
           \<and> protocolOverwriteCount ch' = protocolOverwriteCount ch + of_nat (length ps)
           \<and> carries cfg (last (p # ps)) (protocolBuffers ch' ! unat (protocolReadIndex ch'))"
proof -
  from ps have p: "protocol_ok cfg p" and ps': "\<forall>q\<in>set ps. protocol_ok cfg q" by simp_all
  from handle_protocol_command_carries [OF ok p] nr
  obtain ch1 where s1: "handle_protocol_command cfg p ch = Some ch1" "channel_ok cfg ch1"
      "protocolBufferReady ch1" "protocolOverwriteCount ch1 = protocolOverwriteCount ch"
      "carries cfg p (protocolBuffers ch1 ! unat (protocolReadIndex ch1))"
    by auto
  from publish_all_ready [OF s1(2) s1(3) ps'] obtain ch' where
    s2: "publish_all cfg ps ch1 = Some ch'" "channel_ok cfg ch'" "protocolBufferReady ch'"
      "protocolOverwriteCount ch' = protocolOverwriteCount ch1 + of_nat (length ps)"
      "ps \<noteq> [] \<longrightarrow> carries cfg (last ps) (protocolBuffers ch' ! unat (protocolReadIndex ch'))"
    by blast
  have last: "carries cfg (last (p # ps)) (protocolBuffers ch' ! unat (protocolReadIndex ch'))"
  proof (cases ps)
    case Nil
    with s2(1) have "ch' = ch1" by simp
    with s1(5) Nil show ?thesis by simp
  next
    case (Cons q qs)
    with s2(5) show ?thesis by simp
  qed
  from s1(1) s2(1) have "publish_all cfg (p # ps) ch = Some ch'" by simp
  with s1(4) s2(2,3,4) last show ?thesis by auto
qed

subsection \<open>Round trip through the channel\<close>

text \<open>
  Claim C1 (as amended). A record published by \<^verbatim>\<open>handle_protocol_command\<close> and drained by
  the snapshot of \<^verbatim>\<open>term_loop\<close> comes out with the same \<^verbatim>\<open>command_id\<close>, \<^verbatim>\<open>payload_size\<close>,
  \<^verbatim>\<open>bytes_read\<close> and \<^verbatim>\<open>final_checksum\<close>, whatever the declared size is: the size field is
  copied as it is and never clamped. The payload bytes that are copied are the first
  \<open>min S MAX\<close> ones: all \<open>S\<close> declared bytes when \<open>S\<close> is at most the maximum, and the
  first \<open>MAX\<close> bytes (the whole array) when \<open>S\<close> is larger.
\<close>

theorem publish_then_drain_roundtrip:
  assumes ok: "channel_ok cfg ch" and p: "protocol_ok cfg p"
  shows "\<exists>snapshot. publish_then_drain cfg p ch = Some snapshot
           \<and> command_id snapshot = command_id p
           \<and> payload_size snapshot = payload_size p
           \<and> bytes_read snapshot = bytes_read p
           \<and> final_checksum snapshot = final_checksum p
           \<and> take (copied_bytes cfg p) (payload snapshot) = take (copied_bytes cfg p) (payload p)
           \<and> (if unat (payload_size p) \<le> MAX_PROTOCOL_PAYLOAD_SIZE cfg
               then copied_bytes cfg p = unat (payload_size p)
               else copied_bytes cfg p = MAX_PROTOCOL_PAYLOAD_SIZE cfg
                    \<and> take (MAX_PROTOCOL_PAYLOAD_SIZE cfg) (payload snapshot) = payload p)"
proof -
  from handle_protocol_command_carries [OF ok p] obtain ch' where
    h: "handle_protocol_command cfg p ch = Some ch'" "channel_ok cfg ch'" "protocolBufferReady ch'"
      "carries cfg p (protocolBuffers ch' ! unat (protocolReadIndex ch'))"
    by blast
  let ?s = "protocolBuffers ch' ! unat (protocolReadIndex ch')"
  from h(1) term_loop_snapshot_ready [OF h(2) h(3)]
  have pd: "publish_then_drain cfg p ch = Some ?s"
    by (simp add: publish_then_drain_def)
  from p have lp: "length (payload p) = MAX_PROTOCOL_PAYLOAD_SIZE cfg"
    by (simp add: protocol_ok_def)
  have sz: "if unat (payload_size p) \<le> MAX_PROTOCOL_PAYLOAD_SIZE cfg
               then copied_bytes cfg p = unat (payload_size p)
               else copied_bytes cfg p = MAX_PROTOCOL_PAYLOAD_SIZE cfg
                    \<and> take (MAX_PROTOCOL_PAYLOAD_SIZE cfg) (payload ?s) = payload p"
  proof (cases "unat (payload_size p) \<le> MAX_PROTOCOL_PAYLOAD_SIZE cfg")
    case True
    then show ?thesis by (simp add: copied_bytes_def)
  next
    case False
    then have c: "copied_bytes cfg p = MAX_PROTOCOL_PAYLOAD_SIZE cfg" by (simp add: copied_bytes_def)
    with h(4) lp have "take (MAX_PROTOCOL_PAYLOAD_SIZE cfg) (payload ?s) = payload p"
      by (simp add: carries_def)
    with False c show ?thesis by simp
  qed
  from pd h(4) sz show ?thesis by (simp add: carries_def)
qed

text \<open>The theorem on a record of declared size 2 in a channel of capacity 4.\<close>

theorem publish_then_drain_roundtrip_witness:
  "channel_ok example_config (channel_init example_config)
   \<and> protocol_ok example_config (example_protocol 3 2)
   \<and> copied_bytes example_config (example_protocol 3 2) = 2
   \<and> map_option command_id
        (publish_then_drain example_config (example_protocol 3 2) (channel_init example_config)) = Some 3
   \<and> map_option payload_size
        (publish_then_drain example_config (example_protocol 3 2) (channel_init example_config)) = Some 2
   \<and> map_option (take 2 \<circ> payload)
        (publish_then_drain example_config (example_protocol 3 2) (channel_init example_config))
      = Some [0xDE, 0xAD]"
proof -
  have ok: "channel_ok example_config (channel_init example_config)"
    by (simp add: channel_ok_def channel_init_def zero_protocol_def example_config_def)
  have p: "protocol_ok example_config (example_protocol 3 2)"
    by (simp add: protocol_ok_def example_protocol_def example_config_def)
  have c: "copied_bytes example_config (example_protocol 3 2) = 2"
    by (simp add: copied_bytes_def example_protocol_def example_config_def)
  from publish_then_drain_roundtrip [OF ok p] c ok p show ?thesis
    by (auto simp: example_protocol_def)
qed

text \<open>
  Claim C1 as stated fails for an oversized record: with a capacity of 4 and a declared
  size of 5 the drained record still says 5.
\<close>

theorem payload_size_not_clamped_counterexample:
  "MAX_PROTOCOL_PAYLOAD_SIZE example_config < unat (payload_size (example_protocol 3 5))
   \<and> map_option payload_size
        (publish_then_drain example_config (example_protocol 3 5) (channel_init example_config))
      = Some 5
   \<and> map_option payload_size
        (publish_then_drain example_config (example_protocol 3 5) (channel_init example_config))
      \<noteq> Some (word_of_nat (MAX_PROTOCOL_PAYLOAD_SIZE example_config))"
  by (simp add: publish_then_drain_def handle_protocol_command_def term_loop_snapshot_def
      channel_init_def zero_protocol_def example_protocol_def example_config_def memcpy_def Let_def)

subsection \<open>Ten publishes without a drain\<close>

text \<open>
  Claim C2. Ten calls of \<^verbatim>\<open>handle_protocol_command\<close> on a drained channel (ready flag
  clear), with no snapshot of \<^verbatim>\<open>term_loop\<close> in between, raise the overwrite counter by 9:
  it is 9 when it was 0 before, as in the initial channel. The next snapshot yields
  exactly one record, the last one published, and the snapshot after that finds nothing.
  A single publish increments the counter exactly when the ready flag was still set.
\<close>

theorem ten_publishes_one_record:
  assumes ok: "channel_ok cfg ch" and nr: "\<not> protocolBufferReady ch"
    and len: "length ps = 10" and ps: "\<forall>p\<in>set ps. protocol_ok cfg p"
  shows "\<exists>ch' snapshot ch''.
           publish_all cfg ps ch = Some ch'
           \<and> protocolOverwriteCount ch' = protocolOverwriteCount ch + 9
           \<and> (protocolOverwriteCount ch = 0 \<longrightarrow> protocolOverwriteCount ch' = 9)
           \<and> term_loop_snapshot cfg ch' = Some (snapshot, True, protocolOverwriteCount ch + 9, ch'')
           \<and> carries cfg (last ps) snapshot
           \<and> term_loop_snapshot cfg ch'' =
               Some (zero_protocol cfg, False, protocolOverwriteCount ch + 9, ch'')
           \<and> (\<forall>p c. channel_ok cfg c \<and> protocol_ok cfg p \<longrightarrow>
                 (\<exists>c'. handle_protocol_command cfg p c = Some c'
                    \<and> protocolOverwriteCount c' =
                        (if protocolBufferReady c then protocolOverwriteCount c + 1
                         else protocolOverwriteCount c)))"
proof -
  from len obtain q qs where qs: "ps = q # qs" and lq: "length qs = 9"
    by (cases ps) simp_all
  from publish_all_drained [OF ok nr ps [unfolded qs]] obtain ch' where
    h: "publish_all cfg (q # qs) ch = Some ch'" "channel_ok cfg ch'" "protocolBufferReady ch'"
      "protocolOverwriteCount ch' = protocolOverwriteCount ch + of_nat (length qs)"
      "carries cfg (last (q # qs)) (protocolBuffers ch' ! unat (protocolReadIndex ch'))"
    by blast
  from h(4) lq have cnt: "protocolOverwriteCount ch' = protocolOverwriteCount ch + 9" by simp
  let ?s = "protocolBuffers ch' ! unat (protocolReadIndex ch')"
  let ?d = "ch'\<lparr>protocolBufferReady := False\<rparr>"
  from term_loop_snapshot_ready [OF h(2) h(3)] cnt
  have t1: "term_loop_snapshot cfg ch' = Some (?s, True, protocolOverwriteCount ch + 9, ?d)"
    by simp
  have t2: "term_loop_snapshot cfg ?d = Some (zero_protocol cfg, False, protocolOverwriteCount ch + 9, ?d)"
    using term_loop_snapshot_empty [of ?d cfg] cnt by simp
  have step: "\<forall>p c. channel_ok cfg c \<and> protocol_ok cfg p \<longrightarrow>
                 (\<exists>c'. handle_protocol_command cfg p c = Some c'
                    \<and> protocolOverwriteCount c' =
                        (if protocolBufferReady c then protocolOverwriteCount c + 1
                         else protocolOverwriteCount c))"
    using handle_protocol_command_carries by blast
  from cnt have zero: "protocolOverwriteCount ch = 0 \<longrightarrow> protocolOverwriteCount ch' = 9"
    by simp
  from h(1) h(5) cnt zero t1 t2 step show ?thesis unfolding qs by blast
qed

text \<open>Ten records with the ids 1 to 10 published into the initial channel.\<close>

theorem ten_publishes_one_record_witness:
  "channel_ok example_config (channel_init example_config)
   \<and> \<not> protocolBufferReady (channel_init example_config)
   \<and> protocolOverwriteCount (channel_init example_config) = 0
   \<and> (\<exists>ch' snapshot ch''.
        publish_all example_config (map (\<lambda>n. example_protocol n 4) [1, 2, 3, 4, 5, 6, 7, 8, 9, 10])
          (channel_init example_config) = Some ch'
        \<and> protocolOverwriteCount ch' = 9
        \<and> term_loop_snapshot example_config ch' = Some (snapshot, True, 9, ch'')
        \<and> command_id snapshot = 10
        \<and> term_loop_snapshot example_config ch'' = Some (zero_protocol example_config, False, 9, ch''))"
proof -
  let ?ps = "map (\<lambda>n. example_protocol n 4) [1, 2, 3, 4, 5, 6, 7, 8, 9, 10]"
  have ok: "channel_ok example_config (channel_init example_config)"
    by (simp add: channel_ok_def channel_init_def zero_protocol_def example_config_def)
  have nr: "\<not> protocolBufferReady (channel_init example_config)"
    by (simp add: channel_init_def)
  have z: "protocolOverwriteCount (channel_init example_config) = 0"
    by (simp add: channel_init_def)
  have len: "length ?ps = 10" by simp
  have ps: "\<forall>p\<in>set ?ps. protocol_ok example_config p"
    by (simp add: protocol_ok_def example_protocol_def example_config_def)
  have l: "command_id (last ?ps) = 10" by (simp add: example_protocol_def)
  from ten_publishes_one_record [OF ok nr len ps] obtain ch' snapshot ch'' where
    h: "publish_all example_config ?ps (channel_init example_config) = Some ch'"
       "protocolOverwriteCount ch' = protocolOverwriteCount (channel_init example_config) + 9"
       "term_loop_snapshot example_config ch' =
          Some (snapshot, True, protocolOverwriteCount (channel_init example_config) + 9, ch'')"
       "carries example_config (last ?ps) snapshot"
       "term_loop_snapshot example_config ch'' =
          Some (zero_protocol example_config, False,
                protocolOverwriteCount (channel_init example_config) + 9, ch'')"
    by blast
  from h(4) l have "command_id snapshot = 10" by (simp only: carries_def)
  with h(1,2,3,5) z ok nr show ?thesis by (simp only: add_0) blast
qed

subsection \<open>Cursor arithmetic and scrolling\<close>

lemma unat8_succ: "unat (w :: 8 word) < 255 \<Longrightarrow> unat (w + 1) = unat w + 1"
proof -
  assume "unat w < 255"
  then have "unat w + unat (1 :: 8 word) < 2 ^ LENGTH(8)" by simp
  then have "unat (w + 1) = unat w + unat (1 :: 8 word)" by (simp only: unat_add_lem)
  then show ?thesis by simp
qed

lemma unat8_pred: "0 < unat (w :: 8 word) \<Longrightarrow> unat (w - 1) = unat w - 1"
  by (simp add: unat_minus_one unat_gt_0)

lemma unat8_of_int: "0 \<le> n \<Longrightarrow> n < 256 \<Longrightarrow> unat (word_of_int n :: 8 word) = nat n"
proof -
  assume a: "0 \<le> n" "n < 256"
  have "unat (word_of_int n :: 8 word) = nat (take_bit 8 n)"
    by (simp add: unsigned_of_int)
  also from a have "take_bit 8 n = n" by (simp add: take_bit_int_eq_self)
  finally show ?thesis .
qed

lemma unat8_last: "0 < n \<Longrightarrow> n < 256 \<Longrightarrow> unat (word_of_int (int n - 1) :: 8 word) = n - 1"
  using unat8_of_int [of "int n - 1"] by simp

lemma termScrollUp_effect:
  assumes "0 < TERM_SCREEN_SIZE_Y cfg" and "length (screen st) = TERM_SCREEN_SIZE cfg"
  shows "termScrollUp cfg st =
           Some (st\<lparr>screen := drop (TERM_SCREEN_SIZE_X cfg) (screen st)
                              @ replicate (TERM_SCREEN_SIZE_X cfg) NUL,
                     display := display st @ [ScrollupBuffer]\<rparr>)"
proof -
  let ?X = "TERM_SCREEN_SIZE_X cfg"
  let ?S = "TERM_SCREEN_SIZE cfg"
  from assms(1) have le: "?X \<le> ?S" by (simp add: TERM_SCREEN_SIZE_def)
  have l: "length (drop ?X (screen st)) = ?S - ?X" using assms(2) by simp
  have t: "take (?S - ?X) (drop ?X (screen st)) = drop ?X (screen st)" using l by simp
  have d: "length (drop (?S - ?X) (screen st)) = ?X" using assms(2) le by simp
  show ?thesis
    using le assms(2) l d
    by (simp add: termScrollUp_def Let_def t termScrollupBuffer_def)
qed

subsection \<open>Writing a character\<close>

lemma grid_index_bound:
  assumes "y < Y" and "x < X"
  shows "y * X + x < X * (Y :: nat)"
proof -
  from assms(2) have "y * X + x < y * X + X" by simp
  also have "\<dots> = Suc y * X" by simp
  also from assms(1) have "\<dots> \<le> Y * X" by (intro mult_le_mono1) simp
  finally show ?thesis by (simp add: mult.commute)
qed

lemma term_ok_index:
  "term_ok cfg st \<Longrightarrow>
   unat (cursorY st) * TERM_SCREEN_SIZE_X cfg + unat (cursorX st) < length (screen st)"
  by (simp add: term_ok_def cursor_in_bounds_def TERM_SCREEN_SIZE_def grid_index_bound)

lemma termPutChar_inside:
  assumes cfg: "config_ok cfg" and ok: "term_ok cfg st"
    and x: "unat (cursorX st) + 1 < TERM_SCREEN_SIZE_X cfg"
  shows "termPutChar cfg chr st =
           Some (st\<lparr>screen := (screen st)[unat (cursorY st) * TERM_SCREEN_SIZE_X cfg
                                            + unat (cursorX st) := chr],
                     display := display st @ [TermChar (unat (cursorX st)) (unat (cursorY st)) chr],
                     cursorX := cursorX st + 1\<rparr>)"
proof -
  from cfg x have "unat (cursorX st) < 255" by (simp add: config_ok_def)
  then have s: "unat (cursorX st + 1) = unat (cursorX st) + 1" by (rule unat8_succ)
  from term_ok_index [OF ok] x s show ?thesis
    by (simp add: termPutChar_def Let_def display_termChar_def)
qed

lemma termPutChar_wrap:
  assumes cfg: "config_ok cfg" and ok: "term_ok cfg st"
    and x: "unat (cursorX st) + 1 = TERM_SCREEN_SIZE_X cfg"
    and y: "unat (cursorY st) + 1 < TERM_SCREEN_SIZE_Y cfg"
  shows "termPutChar cfg chr st =
           Some (st\<lparr>screen := (screen st)[unat (cursorY st) * TERM_SCREEN_SIZE_X cfg
                                            + unat (cursorX st) := chr],
                     display := display st @ [TermChar (unat (cursorX st)) (unat (cursorY st)) chr],
                     cursorX := 0, cursorY := cursorY st + 1\<rparr>)"
proof -
  from cfg x have "unat (cursorX st) < 255" by (simp add: config_ok_def)
  then have s: "unat (cursorX st + 1) = unat (cursorX st) + 1" by (rule unat8_succ)
  from cfg y have "unat (cursorY st) < 255" by (simp add: config_ok_def)
  then have t: "unat (cursorY st + 1) = unat (cursorY st) + 1" by (rule unat8_succ)
  from term_ok_index [OF ok] x y s t show ?thesis
    by (simp add: termPutChar_def Let_def display_termChar_def)
qed

lemma termPutChar_scroll:
  assumes cfg: "config_ok cfg" and ok: "term_ok cfg st"
    and x: "unat (cursorX st) + 1 = TERM_SCREEN_SIZE_X cfg"
    and y: "unat (cursorY st) + 1 = TERM_SCREEN_SIZE_Y cfg"
  shows "termPutChar cfg chr st =
           Some (st\<lparr>screen := drop (TERM_SCREEN_SIZE_X cfg)
                                ((screen st)[unat (cursorY st) * TERM_SCREEN_SIZE_X cfg
                                             + unat (cursorX st) := chr])
                              @ replicate (TERM_SCREEN_SIZE_X cfg) NUL,
                     display := display st @ [TermChar (unat (cursorX st)) (unat (cursorY st)) chr,
                                              ScrollupBuffer],
                     cursorX := 0,
                     cursorY := word_of_int (int (TERM_SCREEN_SIZE_Y cfg) - 1)\<rparr>)"
proof -
  let ?idx = "unat (cursorY st) * TERM_SCREEN_SIZE_X cfg + unat (cursorX st)"
  let ?st3 = "st\<lparr>screen := (screen st)[?idx := chr],
                  display := display st @ [TermChar (unat (cursorX st)) (unat (cursorY st)) chr],
                  cursorX := 0, cursorY := cursorY st + 1\<rparr>"
  from cfg x have "unat (cursorX st) < 255" by (simp add: config_ok_def)
  then have s: "unat (cursorX st + 1) = unat (cursorX st) + 1" by (rule unat8_succ)
  from cfg y have "unat (cursorY st) < 255" by (simp add: config_ok_def)
  then have t: "unat (cursorY st + 1) = unat (cursorY st) + 1" by (rule unat8_succ)
  from cfg have y0: "0 < TERM_SCREEN_SIZE_Y cfg" by (simp add: config_ok_def)
  from ok have len: "length (screen ?st3) = TERM_SCREEN_SIZE cfg" by (simp add: term_ok_def)
  note sc = termScrollUp_effect [OF y0 len]
  from term_ok_index [OF ok] x y s t show ?thesis
    by (simp add: termPutChar_def Let_def display_termChar_def sc)
qed

subsection \<open>Rendering keeps the state well formed\<close>

lemma renderedI:
  assumes "term_ok cfg st'" and "inputBuffer st' = inputBuffer st"
    and "inputLength st' = inputLength st" and "display st' = display st @ evs"
    and "TermRefresh \<notin> set evs"
  shows "rendered cfg st st'"
  using assms by (simp add: rendered_def display_extends_def display_since_def)

lemma renderedD:
  assumes "rendered cfg st st'"
  shows "term_ok cfg st'" and "inputBuffer st' = inputBuffer st"
    and "inputLength st' = inputLength st"
    and "display st' = display st @ display_since st st'"
    and "TermRefresh \<notin> set (display_since st st')"
  using assms by (simp_all add: rendered_def display_extends_def)

lemma rendered_refl: "term_ok cfg st \<Longrightarrow> rendered cfg st st"
  by (rule renderedI [where evs = "[]"]) simp_all

lemma rendered_trans:
  assumes ab: "rendered cfg a b" and bc: "rendered cfg b c"
  shows "rendered cfg a c"
proof (rule renderedI [where evs = "display_since a b @ display_since b c"])
  show "term_ok cfg c" by (rule renderedD(1) [OF bc])
  show "inputBuffer c = inputBuffer a" using renderedD(2) [OF ab] renderedD(2) [OF bc] by simp
  show "inputLength c = inputLength a" using renderedD(3) [OF ab] renderedD(3) [OF bc] by simp
  show "display c = display a @ display_since a b @ display_since b c"
    using renderedD(4) [OF ab] renderedD(4) [OF bc] by simp
  show "TermRefresh \<notin> set (display_since a b @ display_since b c)"
    using renderedD(5) [OF ab] renderedD(5) [OF bc] by simp
qed

lemma term_okD:
  assumes "term_ok cfg st"
  shows "length (screen st) = TERM_SCREEN_SIZE cfg"
    and "unat (cursorX st) < TERM_SCREEN_SIZE_X cfg"
    and "unat (cursorY st) < TERM_SCREEN_SIZE_Y cfg"
  using assms by (simp_all add: term_ok_def cursor_in_bounds_def)

lemma screen_size_scrolled:
  "0 < TERM_SCREEN_SIZE_Y cfg \<Longrightarrow> length scr = TERM_SCREEN_SIZE cfg \<Longrightarrow>
   length (drop (TERM_SCREEN_SIZE_X cfg) scr @ replicate (TERM_SCREEN_SIZE_X cfg) NUL)
     = TERM_SCREEN_SIZE cfg"
  by (simp add: TERM_SCREEN_SIZE_def)

lemma termPutChar_rendered:
  assumes cfg: "config_ok cfg" and ok: "term_ok cfg st"
  shows "\<exists>st'. termPutChar cfg chr st = Some st' \<and> rendered cfg st st'"
proof -
  note b = term_okD [OF ok]
  from cfg have y0: "0 < TERM_SCREEN_SIZE_Y cfg" and x0: "0 < TERM_SCREEN_SIZE_X cfg"
    and y256: "TERM_SCREEN_SIZE_Y cfg < 256"
    by (simp_all add: config_ok_def)
  consider (inside) "unat (cursorX st) + 1 < TERM_SCREEN_SIZE_X cfg"
    | (wrap) "unat (cursorX st) + 1 = TERM_SCREEN_SIZE_X cfg"
             "unat (cursorY st) + 1 < TERM_SCREEN_SIZE_Y cfg"
    | (scroll) "unat (cursorX st) + 1 = TERM_SCREEN_SIZE_X cfg"
               "unat (cursorY st) + 1 = TERM_SCREEN_SIZE_Y cfg"
    using b(2,3) by linarith
  then show ?thesis
  proof cases
    case inside
    from cfg inside have "unat (cursorX st) < 255" by (simp add: config_ok_def)
    then have s: "unat (cursorX st + 1) = unat (cursorX st) + 1" by (rule unat8_succ)
    note e = termPutChar_inside [OF cfg ok inside, of chr]
    have "rendered cfg st (the (termPutChar cfg chr st))"
      unfolding e option.sel
      by (rule renderedI [where evs = "[TermChar (unat (cursorX st)) (unat (cursorY st)) chr]"])
         (use b inside s in \<open>simp_all add: term_ok_def cursor_in_bounds_def\<close>)
    with e show ?thesis by simp
  next
    case wrap
    from cfg wrap(2) have "unat (cursorY st) < 255" by (simp add: config_ok_def)
    then have t: "unat (cursorY st + 1) = unat (cursorY st) + 1" by (rule unat8_succ)
    note e = termPutChar_wrap [OF cfg ok wrap, of chr]
    have "rendered cfg st (the (termPutChar cfg chr st))"
      unfolding e option.sel
      by (rule renderedI [where evs = "[TermChar (unat (cursorX st)) (unat (cursorY st)) chr]"])
         (use b wrap t x0 in \<open>simp_all add: term_ok_def cursor_in_bounds_def\<close>)
    with e show ?thesis by simp
  next
    case scroll
    have l: "unat (word_of_int (int (TERM_SCREEN_SIZE_Y cfg) - 1) :: 8 word) = TERM_SCREEN_SIZE_Y cfg - 1"
      using y0 y256 by (rule unat8_last)
    from y0 have le: "TERM_SCREEN_SIZE_X cfg \<le> TERM_SCREEN_SIZE cfg"
      by (simp add: TERM_SCREEN_SIZE_def)
    note e = termPutChar_scroll [OF cfg ok scroll, of chr]
    have "rendered cfg st (the (termPutChar cfg chr st))"
      unfolding e option.sel
      by (rule renderedI [where evs = "[TermChar (unat (cursorX st)) (unat (cursorY st)) chr, ScrollupBuffer]"])
         (use b l x0 y0 le in \<open>simp_all add: term_ok_def cursor_in_bounds_def\<close>)
    with e show ?thesis by simp
  qed
qed

lemma termRenderChar_NUL:
  "termRenderChar cfg NUL st =
     Some (st\<lparr>display := display st @ [TermChar (unat (prevCursorX st)) (unat (prevCursorY st)) CHR '' '',
                                        TermCursor (unat (cursorX st)) (unat (cursorY st))],
               prevCursorX := cursorX st, prevCursorY := cursorY st\<rparr>)"
  by (simp add: termRenderChar_def Let_def display_termChar_def display_termCursor_def NUL_def)

lemma termRenderChar_newline_inside:
  assumes cfg: "config_ok cfg" and nl: "chr = CHR 0x0A \<or> chr = CHR 0x0D"
    and y: "unat (cursorY st) + 1 < TERM_SCREEN_SIZE_Y cfg"
  shows "termRenderChar cfg chr st =
     Some (st\<lparr>display := display st @ [TermChar (unat (prevCursorX st)) (unat (prevCursorY st)) CHR '' '',
                                        TermCursor 0 (unat (cursorY st) + 1)],
               cursorX := 0, cursorY := cursorY st + 1,
               prevCursorX := 0, prevCursorY := cursorY st + 1\<rparr>)"
proof -
  from cfg y have "unat (cursorY st) < 255" by (simp add: config_ok_def)
  then have t: "unat (cursorY st + 1) = unat (cursorY st) + 1" by (rule unat8_succ)
  from nl y t show ?thesis
    by (auto simp: termRenderChar_def Let_def display_termChar_def display_termCursor_def)
qed

lemma termRenderChar_newline_scroll:
  assumes cfg: "config_ok cfg" and nl: "chr = CHR 0x0A \<or> chr = CHR 0x0D"
    and len: "length (screen st) = TERM_SCREEN_SIZE cfg"
    and y: "unat (cursorY st) + 1 = TERM_SCREEN_SIZE_Y cfg"
  shows "termRenderChar cfg chr st =
     Some (st\<lparr>screen := drop (TERM_SCREEN_SIZE_X cfg) (screen st)
                              @ replicate (TERM_SCREEN_SIZE_X cfg) NUL,
               display := display st @ [TermChar (unat (prevCursorX st)) (unat (prevCursorY st)) CHR '' '',
                                        ScrollupBuffer,
                                        TermCursor 0 (TERM_SCREEN_SIZE_Y cfg - 1)],
               cursorX := 0, cursorY := word_of_int (int (TERM_SCREEN_SIZE_Y cfg) - 1),
               prevCursorX := 0, prevCursorY := word_of_int (int (TERM_SCREEN_SIZE_Y cfg) - 1)\<rparr>)"
proof -
  let ?st1 = "st\<lparr>display := display st @ [TermChar (unat (prevCursorX st)) (unat (prevCursorY st)) CHR '' ''],
                  cursorX := 0, cursorY := cursorY st + 1\<rparr>"
  from cfg have y0: "0 < TERM_SCREEN_SIZE_Y cfg" and y256: "TERM_SCREEN_SIZE_Y cfg < 256"
    by (simp_all add: config_ok_def)
  from y y256 have "unat (cursorY st) < 255" by simp
  then have t: "unat (cursorY st + 1) = unat (cursorY st) + 1" by (rule unat8_succ)
  have l: "unat (word_of_int (int (TERM_SCREEN_SIZE_Y cfg) - 1) :: 8 word) = TERM_SCREEN_SIZE_Y cfg - 1"
    using y0 y256 by (rule unat8_last)
  from len have len1: "length (screen ?st1) = TERM_SCREEN_SIZE cfg" by simp
  note sc = termScrollUp_effect [OF y0 len1]
  from nl y t l show ?thesis
    by (auto simp: termRenderChar_def Let_def display_termChar_def display_termCursor_def sc)
qed

lemma rendered_step:
  assumes "term_ok cfg st'" and "inputBuffer st' = inputBuffer st"
    and "inputLength st' = inputLength st" and "display st' = display st"
  shows "rendered cfg st st'"
  by (rule renderedI [where evs = "[]"]) (use assms in simp_all)

lemma rendered_display_termChar:
  "term_ok cfg st \<Longrightarrow> rendered cfg st (display_termChar x y c st)"
  by (rule renderedI [where evs = "[TermChar x y c]"])
     (simp_all add: display_termChar_def term_ok_def cursor_in_bounds_def)

lemma rendered_draw_cursor:
  "term_ok cfg st \<Longrightarrow>
   rendered cfg st ((display_termCursor x y st)\<lparr>prevCursorX := a, prevCursorY := b\<rparr>)"
  by (rule renderedI [where evs = "[TermCursor x y]"])
     (simp_all add: display_termCursor_def term_ok_def cursor_in_bounds_def)

lemma termRenderChar_plain:
  assumes "chr \<noteq> CHR 0x0A" and "chr \<noteq> CHR 0x0D" and "chr \<noteq> NUL"
  shows "termRenderChar cfg chr st =
           (case termPutChar cfg chr
                   (display_termChar (unat (prevCursorX st)) (unat (prevCursorY st)) CHR '' '' st) of
              None \<Rightarrow> None
            | Some st3 \<Rightarrow>
                Some ((display_termCursor (unat (cursorX st3)) (unat (cursorY st3)) st3)
                        \<lparr>prevCursorX := cursorX st3, prevCursorY := cursorY st3\<rparr>))"
  using assms by (simp add: termRenderChar_def Let_def)

lemma termRenderChar_rendered:
  assumes cfg: "config_ok cfg" and ok: "term_ok cfg st"
  shows "\<exists>st'. termRenderChar cfg chr st = Some st' \<and> rendered cfg st st'"
proof -
  note b = term_okD [OF ok]
  from cfg have y0: "0 < TERM_SCREEN_SIZE_Y cfg" and x0: "0 < TERM_SCREEN_SIZE_X cfg"
    and y256: "TERM_SCREEN_SIZE_Y cfg < 256"
    by (simp_all add: config_ok_def)
  have l: "unat (word_of_int (int (TERM_SCREEN_SIZE_Y cfg) - 1) :: 8 word) = TERM_SCREEN_SIZE_Y cfg - 1"
    using y0 y256 by (rule unat8_last)
  from y0 have le: "TERM_SCREEN_SIZE_X cfg \<le> TERM_SCREEN_SIZE cfg"
    by (simp add: TERM_SCREEN_SIZE_def)
  consider (nul) "chr = NUL"
    | (nl) "chr = CHR 0x0A \<or> chr = CHR 0x0D" "unat (cursorY st) + 1 < TERM_SCREEN_SIZE_Y cfg"
    | (nls) "chr = CHR 0x0A \<or> chr = CHR 0x0D" "unat (cursorY st) + 1 = TERM_SCREEN_SIZE_Y cfg"
    | (plain) "chr \<noteq> CHR 0x0A" "chr \<noteq> CHR 0x0D" "chr \<noteq> NUL"
    using b(3) by fastforce
  then show ?thesis
  proof cases
    case nul
    have "rendered cfg st (the (termRenderChar cfg NUL st))"
      unfolding termRenderChar_NUL option.sel
      by (rule renderedI [where evs = "[TermChar (unat (prevCursorX st)) (unat (prevCursorY st)) CHR '' '',
                                        TermCursor (unat (cursorX st)) (unat (cursorY st))]"])
         (use b in \<open>simp_all add: term_ok_def cursor_in_bounds_def\<close>)
    with nul termRenderChar_NUL [of cfg st] show ?thesis by simp
  next
    case nl
    from y256 nl(2) have "unat (cursorY st) < 255" by simp
    then have t: "unat (cursorY st + 1) = unat (cursorY st) + 1" by (rule unat8_succ)
    note e = termRenderChar_newline_inside [OF cfg nl]
    have "rendered cfg st (the (termRenderChar cfg chr st))"
      unfolding e option.sel
      by (rule renderedI [where evs = "[TermChar (unat (prevCursorX st)) (unat (prevCursorY st)) CHR '' '',
                                        TermCursor 0 (unat (cursorY st) + 1)]"])
         (use b nl t x0 in \<open>simp_all add: term_ok_def cursor_in_bounds_def\<close>)
    with e show ?thesis by simp
  next
    case nls
    note e = termRenderChar_newline_scroll [OF cfg nls(1) b(1) nls(2)]
    have "rendered cfg st (the (termRenderChar cfg chr st))"
      unfolding e option.sel
      by (rule renderedI [where evs = "[TermChar (unat (prevCursorX st)) (unat (prevCursorY st)) CHR '' '',
                                        ScrollupBuffer,
                                        TermCursor 0 (TERM_SCREEN_SIZE_Y cfg - 1)]"])
         (use b l x0 y0 le in \<open>simp_all add: term_ok_def cursor_in_bounds_def\<close>)
    with e show ?thesis by simp
  next
    case plain
    let ?st0 = "display_termChar (unat (prevCursorX st)) (unat (prevCursorY st)) CHR '' '' st"
    have r0: "rendered cfg st ?st0" using ok by (rule rendered_display_termChar)
    from termPutChar_rendered [OF cfg renderedD(1) [OF r0], of chr] obtain st3 where
      p: "termPutChar cfg chr ?st0 = Some st3" and r3: "rendered cfg ?st0 st3" by blast
    let ?st' = "(display_termCursor (unat (cursorX st3)) (unat (cursorY st3)) st3)
                  \<lparr>prevCursorX := cursorX st3, prevCursorY := cursorY st3\<rparr>"
    have r4: "rendered cfg st3 ?st'" using renderedD(1) [OF r3] by (rule rendered_draw_cursor)
    have "rendered cfg st ?st'" using r0 r3 r4 by (blast intro: rendered_trans)
    moreover have "termRenderChar cfg chr st = Some ?st'"
      using p by (simp add: termRenderChar_plain [OF plain])
    ultimately show ?thesis by blast
  qed
qed

lemma render_chars_rendered:
  assumes cfg: "config_ok cfg" and ok: "term_ok cfg st"
  shows "\<exists>st'. render_chars cfg cs st = Some st' \<and> rendered cfg st st'"
  using ok
proof (induction cs arbitrary: st)
  case Nil
  then show ?case by (simp add: rendered_refl)
next
  case (Cons c cs)
  from termRenderChar_rendered [OF cfg Cons.prems, of c] obtain st1 where
    s1: "termRenderChar cfg c st = Some st1" and r1: "rendered cfg st st1" by blast
  from Cons.IH [OF renderedD(1) [OF r1]] obtain st' where
    s2: "render_chars cfg cs st1 = Some st'" and r2: "rendered cfg st1 st'" by blast
  from s1 s2 have "render_chars cfg (c # cs) st = Some st'" by simp
  with rendered_trans [OF r1 r2] show ?case by blast
qed

lemma for_each_rendered:
  assumes body: "\<And>i s. i \<in> set idx \<Longrightarrow> term_ok cfg s \<Longrightarrow>
                   \<exists>s'. body i s = Some s' \<and> rendered cfg s s'"
    and ok: "term_ok cfg st"
  shows "\<exists>st'. for_each idx body st = Some st' \<and> rendered cfg st st'"
  using body ok
proof (induction idx arbitrary: st)
  case Nil
  then show ?case by (simp add: rendered_refl)
next
  case (Cons i idx)
  from Cons.prems(1) [of i st] Cons.prems(2) obtain st1 where
    s1: "body i st = Some st1" and r1: "rendered cfg st st1" by auto
  have "\<exists>st'. for_each idx body st1 = Some st' \<and> rendered cfg st1 st'"
    by (rule Cons.IH) (use Cons.prems(1) renderedD(1) [OF r1] in auto)
  then obtain st' where s2: "for_each idx body st1 = Some st'" and r2: "rendered cfg st1 st'"
    by blast
  from s1 s2 have "for_each (i # idx) body st = Some st'" by simp
  with rendered_trans [OF r1 r2] show ?case by blast
qed

lemma clear_cell_rendered:
  assumes x: "posX < TERM_SCREEN_SIZE_X cfg" and y: "posY < TERM_SCREEN_SIZE_Y cfg"
    and ok: "term_ok cfg st"
  shows "\<exists>st'. clear_cell cfg posX posY st = Some st' \<and> rendered cfg st st'
           \<and> cursorX st' = cursorX st \<and> cursorY st' = cursorY st
           \<and> prevCursorX st' = prevCursorX st \<and> prevCursorY st' = prevCursorY st"
proof -
  note b = term_okD [OF ok]
  from grid_index_bound [OF y x] b(1)
  have i: "posY * TERM_SCREEN_SIZE_X cfg + posX < length (screen st)"
    by (simp add: TERM_SCREEN_SIZE_def)
  let ?st' = "display_termChar posX posY CHR '' ''
                (st\<lparr>screen := (screen st)[posY * TERM_SCREEN_SIZE_X cfg + posX := NUL]\<rparr>)"
  from i have e: "clear_cell cfg posX posY st = Some ?st'" by (simp add: clear_cell_def)
  have "rendered cfg st ?st'"
    by (rule renderedI [where evs = "[TermChar posX posY CHR '' '']"])
       (use b in \<open>simp_all add: display_termChar_def term_ok_def cursor_in_bounds_def\<close>)
  with e show ?thesis by (simp add: display_termChar_def)
qed

lemma clear_row_rendered:
  assumes y: "posY < TERM_SCREEN_SIZE_Y cfg" and ok: "term_ok cfg st"
  shows "\<exists>st'. for_each [a ..< TERM_SCREEN_SIZE_X cfg] (\<lambda>posX. clear_cell cfg posX posY) st = Some st'
           \<and> rendered cfg st st'"
proof (rule for_each_rendered [OF _ ok])
  fix i s assume "i \<in> set [a ..< TERM_SCREEN_SIZE_X cfg]" and s: "term_ok cfg s"
  then have "i < TERM_SCREEN_SIZE_X cfg" by simp
  from clear_cell_rendered [OF this y s]
  show "\<exists>s'. clear_cell cfg i posY s = Some s' \<and> rendered cfg s s'" by blast
qed

lemma clear_rows_rendered:
  assumes ok: "term_ok cfg st"
  shows "\<exists>st'. for_each [b ..< TERM_SCREEN_SIZE_Y cfg]
                 (\<lambda>posY. for_each [a ..< TERM_SCREEN_SIZE_X cfg] (\<lambda>posX. clear_cell cfg posX posY)) st
               = Some st' \<and> rendered cfg st st'"
proof (rule for_each_rendered [OF _ ok])
  fix i s assume "i \<in> set [b ..< TERM_SCREEN_SIZE_Y cfg]" and s: "term_ok cfg s"
  then have "i < TERM_SCREEN_SIZE_Y cfg" by simp
  from clear_row_rendered [OF this s]
  show "\<exists>s'. for_each [a ..< TERM_SCREEN_SIZE_X cfg] (\<lambda>posX. clear_cell cfg posX i) s = Some s'
          \<and> rendered cfg s s'" .
qed

subsection \<open>Escape sequences\<close>

lemma move_then_render:
  assumes cfg: "config_ok cfg" and ok: "term_ok cfg m"
    and same: "inputBuffer m = inputBuffer st" "inputLength m = inputLength st"
      "display m = display st"
  shows "\<exists>st'. termRenderChar cfg NUL m = Some st' \<and> rendered cfg st st'"
proof -
  have r: "rendered cfg st m" using ok same by (rule rendered_step)
  from termRenderChar_rendered [OF cfg ok, of NUL] obtain st' where
    "termRenderChar cfg NUL m = Some st'" and "rendered cfg m st'" by blast
  with rendered_trans [OF r] show ?thesis by blast
qed

lemma vt52_short: "length seq < 2 \<Longrightarrow> vt52ProcessSequence cfg seq st = Some st"
  by (simp add: vt52ProcessSequence_def)

lemma vt52_up:
  assumes "2 \<le> length seq" and "seq ! 1 = CHR ''A''"
  shows "vt52ProcessSequence cfg seq st =
           termRenderChar cfg NUL (if unat (cursorY st) > 0 then st\<lparr>cursorY := cursorY st - 1\<rparr> else st)"
  using assms by (simp add: vt52ProcessSequence_def)

lemma vt52_down:
  assumes "2 \<le> length seq" and "seq ! 1 = CHR ''B''"
  shows "vt52ProcessSequence cfg seq st =
           termRenderChar cfg NUL
             (if unat (cursorY st) + 1 < TERM_SCREEN_SIZE_Y cfg
              then st\<lparr>cursorY := cursorY st + 1\<rparr> else st)"
proof -
  have "(int (unat (cursorY st)) < int (TERM_SCREEN_SIZE_Y cfg) - 1)
          = (unat (cursorY st) + 1 < TERM_SCREEN_SIZE_Y cfg)" by linarith
  with assms show ?thesis by (simp add: vt52ProcessSequence_def)
qed

lemma vt52_right:
  assumes "2 \<le> length seq" and "seq ! 1 = CHR ''C''"
  shows "vt52ProcessSequence cfg seq st =
           termRenderChar cfg NUL
             (if unat (cursorX st) + 1 < TERM_SCREEN_SIZE_X cfg
              then st\<lparr>cursorX := cursorX st + 1\<rparr> else st)"
proof -
  have "(int (unat (cursorX st)) < int (TERM_SCREEN_SIZE_X cfg) - 1)
          = (unat (cursorX st) + 1 < TERM_SCREEN_SIZE_X cfg)" by linarith
  with assms show ?thesis by (simp add: vt52ProcessSequence_def)
qed

lemma vt52_left:
  assumes "2 \<le> length seq" and "seq ! 1 = CHR ''D''"
  shows "vt52ProcessSequence cfg seq st =
           termRenderChar cfg NUL (if unat (cursorX st) > 0 then st\<lparr>cursorX := cursorX st - 1\<rparr> else st)"
  using assms by (simp add: vt52ProcessSequence_def)

lemma vt52_clear_home:
  assumes "2 \<le> length seq" and "seq ! 1 = CHR ''E''"
  shows "vt52ProcessSequence cfg seq st =
           (case termRenderChar cfg NUL (st\<lparr>cursorX := 0, cursorY := 0\<rparr>) of
             None \<Rightarrow> None
           | Some st1 \<Rightarrow>
               for_each [0 ..< TERM_SCREEN_SIZE_Y cfg]
                 (\<lambda>posY. for_each [0 ..< TERM_SCREEN_SIZE_X cfg] (\<lambda>posX. clear_cell cfg posX posY))
                 st1)"
  using assms by (simp add: vt52ProcessSequence_def)

lemma vt52_home:
  assumes "2 \<le> length seq" and "seq ! 1 = CHR ''H''"
  shows "vt52ProcessSequence cfg seq st = termRenderChar cfg NUL (st\<lparr>cursorX := 0, cursorY := 0\<rparr>)"
  using assms by (simp add: vt52ProcessSequence_def)

lemma vt52_erase_screen:
  assumes "2 \<le> length seq" and "seq ! 1 = CHR ''J''"
  shows "vt52ProcessSequence cfg seq st =
           for_each [unat (cursorY st) ..< TERM_SCREEN_SIZE_Y cfg]
            (\<lambda>posY. for_each [unat (cursorX st) ..< TERM_SCREEN_SIZE_X cfg]
                       (\<lambda>posX. clear_cell cfg posX posY))
            st"
  using assms by (simp add: vt52ProcessSequence_def)

lemma vt52_erase_line:
  assumes "2 \<le> length seq" and "seq ! 1 = CHR ''K''"
  shows "vt52ProcessSequence cfg seq st =
           for_each [unat (cursorX st) ..< TERM_SCREEN_SIZE_X cfg]
            (\<lambda>posX. clear_cell cfg posX (unat (cursorY st)))
            st"
  using assms by (simp add: vt52ProcessSequence_def)

lemma vt52_address:
  assumes "2 \<le> length seq" and "seq ! 1 = CHR ''Y''"
  shows "vt52ProcessSequence cfg seq st =
          (if length seq = 4 then
             termRenderChar cfg NUL
                  (if int (of_char (seq ! 2) :: nat) - int (TERM_POS_Y cfg) \<ge> 0
                      \<and> int (of_char (seq ! 2) :: nat) - int (TERM_POS_Y cfg) < int (TERM_SCREEN_SIZE_Y cfg)
                      \<and> int (of_char (seq ! 3) :: nat) - int (TERM_POS_X cfg) \<ge> 0
                      \<and> int (of_char (seq ! 3) :: nat) - int (TERM_POS_X cfg) < int (TERM_SCREEN_SIZE_X cfg)
                   then st\<lparr>cursorY := word_of_int (int (of_char (seq ! 2) :: nat) - int (TERM_POS_Y cfg)),
                           cursorX := word_of_int (int (of_char (seq ! 3) :: nat) - int (TERM_POS_X cfg))\<rparr>
                   else st)
           else Some st)"
  using assms by (simp add: vt52ProcessSequence_def Let_def)

lemma vt52_unrecognised:
  assumes "2 \<le> length seq" and "seq ! 1 \<notin> set ''ABCDEHJKY''"
  shows "vt52ProcessSequence cfg seq st = Some st"
  using assms by (simp add: vt52ProcessSequence_def)

lemma vt52ProcessSequence_rendered:
  assumes cfg: "config_ok cfg" and ok: "term_ok cfg st"
  shows "\<exists>st'. vt52ProcessSequence cfg seq st = Some st' \<and> rendered cfg st st'"
proof (cases "length seq < 2")
  case True
  with ok show ?thesis by (simp add: vt52_short rendered_refl)
next
  case False
  then have l: "2 \<le> length seq" by simp
  note b = term_okD [OF ok]
  from cfg have y0: "0 < TERM_SCREEN_SIZE_Y cfg" and x0: "0 < TERM_SCREEN_SIZE_X cfg"
    and y256: "TERM_SCREEN_SIZE_Y cfg < 256" and x256: "TERM_SCREEN_SIZE_X cfg < 256"
    by (simp_all add: config_ok_def)
  consider (A) "seq ! 1 = CHR ''A''" | (B) "seq ! 1 = CHR ''B''" | (C) "seq ! 1 = CHR ''C''"
    | (D) "seq ! 1 = CHR ''D''" | (E) "seq ! 1 = CHR ''E''" | (H) "seq ! 1 = CHR ''H''"
    | (J) "seq ! 1 = CHR ''J''" | (K) "seq ! 1 = CHR ''K''" | (Y) "seq ! 1 = CHR ''Y''"
    | (other) "seq ! 1 \<notin> set ''ABCDEHJKY''"
    by auto
  then show ?thesis
  proof cases
    case A
    let ?m = "if unat (cursorY st) > 0 then st\<lparr>cursorY := cursorY st - 1\<rparr> else st"
    have "term_ok cfg ?m"
      using ok b by (auto simp: term_ok_def cursor_in_bounds_def unat8_pred)
    from move_then_render [OF cfg this, of st] show ?thesis
      unfolding vt52_up [OF l A] by simp
  next
    case B
    let ?m = "if unat (cursorY st) + 1 < TERM_SCREEN_SIZE_Y cfg
              then st\<lparr>cursorY := cursorY st + 1\<rparr> else st"
    have "term_ok cfg ?m"
    proof (cases "unat (cursorY st) + 1 < TERM_SCREEN_SIZE_Y cfg")
      case True
      with y256 have "unat (cursorY st) < 255" by simp
      then have "unat (cursorY st + 1) = unat (cursorY st) + 1" by (rule unat8_succ)
      with True ok show ?thesis by (simp add: term_ok_def cursor_in_bounds_def)
    next
      case False
      with ok show ?thesis by simp
    qed
    from move_then_render [OF cfg this, of st] show ?thesis
      unfolding vt52_down [OF l B] by simp
  next
    case C
    let ?m = "if unat (cursorX st) + 1 < TERM_SCREEN_SIZE_X cfg
              then st\<lparr>cursorX := cursorX st + 1\<rparr> else st"
    have "term_ok cfg ?m"
    proof (cases "unat (cursorX st) + 1 < TERM_SCREEN_SIZE_X cfg")
      case True
      with x256 have "unat (cursorX st) < 255" by simp
      then have "unat (cursorX st + 1) = unat (cursorX st) + 1" by (rule unat8_succ)
      with True ok show ?thesis by (simp add: term_ok_def cursor_in_bounds_def)
    next
      case False
      with ok show ?thesis by simp
    qed
    from move_then_render [OF cfg this, of st] show ?thesis
      unfolding vt52_right [OF l C] by simp
  next
    case D
    let ?m = "if unat (cursorX st) > 0 then st\<lparr>cursorX := cursorX st - 1\<rparr> else st"
    have "term_ok cfg ?m"
      using ok b by (auto simp: term_ok_def cursor_in_bounds_def unat8_pred)
    from move_then_render [OF cfg this, of st] show ?thesis
      unfolding vt52_left [OF l D] by simp
  next
    case E
    have "term_ok cfg (st\<lparr>cursorX := 0, cursorY := 0\<rparr>)"
      using ok x0 y0 by (simp add: term_ok_def cursor_in_bounds_def)
    from move_then_render [OF cfg this, of st] obtain st1 where
      s1: "termRenderChar cfg NUL (st\<lparr>cursorX := 0, cursorY := 0\<rparr>) = Some st1"
      and r1: "rendered cfg st st1" by auto
    from clear_rows_rendered [OF renderedD(1) [OF r1], of 0 0] obtain st' where
      s2: "for_each [0 ..< TERM_SCREEN_SIZE_Y cfg]
                 (\<lambda>posY. for_each [0 ..< TERM_SCREEN_SIZE_X cfg] (\<lambda>posX. clear_cell cfg posX posY)) st1
             = Some st'" and r2: "rendered cfg st1 st'" by blast
    from s1 s2 have "vt52ProcessSequence cfg seq st = Some st'"
      by (simp add: vt52_clear_home [OF l E])
    with rendered_trans [OF r1 r2] show ?thesis by blast
  next
    case H
    have "term_ok cfg (st\<lparr>cursorX := 0, cursorY := 0\<rparr>)"
      using ok x0 y0 by (simp add: term_ok_def cursor_in_bounds_def)
    from move_then_render [OF cfg this, of st] show ?thesis
      unfolding vt52_home [OF l H] by simp
  next
    case J
    from clear_rows_rendered [OF ok] show ?thesis
      unfolding vt52_erase_screen [OF l J] .
  next
    case K
    from clear_row_rendered [OF b(3) ok] show ?thesis
      unfolding vt52_erase_line [OF l K] .
  next
    case Y
    show ?thesis
    proof (cases "length seq = 4")
      case False
      with ok show ?thesis by (simp add: vt52_address [OF l Y] rendered_refl)
    next
      case True
      let ?row = "int (of_char (seq ! 2) :: nat) - int (TERM_POS_Y cfg)"
      let ?col = "int (of_char (seq ! 3) :: nat) - int (TERM_POS_X cfg)"
      let ?m = "if ?row \<ge> 0 \<and> ?row < int (TERM_SCREEN_SIZE_Y cfg) \<and> ?col \<ge> 0
                    \<and> ?col < int (TERM_SCREEN_SIZE_X cfg)
                then st\<lparr>cursorY := word_of_int ?row, cursorX := word_of_int ?col\<rparr> else st"
      have "term_ok cfg ?m"
      proof (cases "?row \<ge> 0 \<and> ?row < int (TERM_SCREEN_SIZE_Y cfg) \<and> ?col \<ge> 0
                    \<and> ?col < int (TERM_SCREEN_SIZE_X cfg)")
        case False
        then have "?m = st" by (rule if_not_P)
        with ok show ?thesis by (simp only:)
      next
        case True
        then have m: "?m = st\<lparr>cursorY := word_of_int ?row, cursorX := word_of_int ?col\<rparr>"
          by (rule if_P)
        from True x256 have c: "unat (word_of_int ?col :: 8 word) = nat ?col"
          by (intro unat8_of_int) linarith+
        from True y256 have r: "unat (word_of_int ?row :: 8 word) = nat ?row"
          by (intro unat8_of_int) linarith+
        from True have "nat ?row < TERM_SCREEN_SIZE_Y cfg" and "nat ?col < TERM_SCREEN_SIZE_X cfg"
          by linarith+
        with b(1) c r have "term_ok cfg (st\<lparr>cursorY := word_of_int ?row, cursorX := word_of_int ?col\<rparr>)"
          by (simp only: term_ok_def cursor_in_bounds_def) simp
        with m show ?thesis by (simp only:)
      qed
      from move_then_render [OF cfg this, of st] True show ?thesis
        unfolding vt52_address [OF l Y] by simp
    qed
  next
    case other
    with ok show ?thesis by (simp add: vt52_unrecognised [OF l other] rendered_refl)
  qed
qed

subsection \<open>The loop of the string printer\<close>

lemma esc_complete_rendered:
  assumes cfg: "config_ok cfg" and ok: "term_ok cfg st"
  shows "\<exists>state' st'. esc_complete cfg esc (state, st) = Some (state', st')
           \<and> rendered cfg st st' \<and> (state' = STATE_NORMAL \<or> state' = state)"
proof -
  from vt52ProcessSequence_rendered [OF cfg ok, of esc] obtain st' where
    v: "vt52ProcessSequence cfg esc st = Some st'" and r: "rendered cfg st st'" by blast
  consider (wait) "length esc = 2" "esc ! 1 = CHR ''Y''"
    | (two) "length esc = 2" "esc ! 1 \<noteq> CHR ''Y''"
    | (four) "length esc \<noteq> 2" "esc ! 1 = CHR ''Y'' \<and> length esc = 4"
    | (none) "length esc \<noteq> 2" "\<not> (esc ! 1 = CHR ''Y'' \<and> length esc = 4)"
    by blast
  then show ?thesis
  proof cases
    case wait
    then have "esc_complete cfg esc (state, st) = Some (state, st)"
      by (simp add: esc_complete_def)
    with rendered_refl [OF ok] show ?thesis by blast
  next
    case two
    with v have "esc_complete cfg esc (state, st) = Some (STATE_NORMAL, st')"
      by (simp add: esc_complete_def)
    with r show ?thesis by blast
  next
    case four
    with v have "esc_complete cfg esc (state, st) = Some (STATE_NORMAL, st')"
      by (simp add: esc_complete_def)
    with r show ?thesis by blast
  next
    case none
    then have "esc_complete cfg esc (state, st) = Some (state, st)"
      by (auto simp: esc_complete_def)
    with rendered_refl [OF ok] show ?thesis by blast
  qed
qed

lemma esc_overflow_rendered:
  assumes cfg: "config_ok cfg" and ok: "term_ok cfg st"
  shows "\<exists>state' st'. esc_overflow cfg esc (state, st) = Some (state', esc, st')
           \<and> rendered cfg st st'
           \<and> (state' = STATE_NORMAL \<or> (state' = state \<and> length esc < TERM_ESC_BUFFLINE_SIZE cfg))"
proof (cases "length esc \<ge> TERM_ESC_BUFFLINE_SIZE cfg")
  case True
  from render_chars_rendered [OF cfg ok, of esc] obtain st' where
    "render_chars cfg esc st = Some st'" and r: "rendered cfg st st'" by blast
  with True have "esc_overflow cfg esc (state, st) = Some (STATE_NORMAL, esc, st')"
    by (simp add: esc_overflow_def)
  with r show ?thesis by blast
next
  case False
  then have "esc_overflow cfg esc (state, st) = Some (state, esc, st)"
    by (simp add: esc_overflow_def)
  with False rendered_refl [OF ok] show ?thesis by auto
qed

lemma print_step_rendered:
  assumes cfg: "config_ok cfg" and ok: "term_ok cfg st" and p: "esc_pending_ok cfg state esc"
  shows "\<exists>state' esc' st'. print_step cfg chr (state, esc, st) = Some (state', esc', st')
           \<and> esc_pending_ok cfg state' esc' \<and> rendered cfg st st'"
proof (cases state)
  case STATE_NORMAL
  show ?thesis
  proof (cases "chr = TERM_ESC_CHAR")
    case True
    from cfg have "2 \<le> TERM_ESC_BUFFLINE_SIZE cfg" by (simp add: config_ok_def)
    with True STATE_NORMAL
    have "print_step cfg chr (state, esc, st) = Some (STATE_ESC, [chr], st)"
      and "esc_pending_ok cfg STATE_ESC [chr]"
      by (simp_all add: print_step_def esc_pending_ok_def)
    with rendered_refl [OF ok] show ?thesis by blast
  next
    case False
    from termRenderChar_rendered [OF cfg ok, of chr] obtain st' where
      "termRenderChar cfg chr st = Some st'" and r: "rendered cfg st st'" by blast
    with False STATE_NORMAL
    have "print_step cfg chr (state, esc, st) = Some (STATE_NORMAL, esc, st')"
      by (simp add: print_step_def)
    moreover have "esc_pending_ok cfg STATE_NORMAL esc" by (simp add: esc_pending_ok_def)
    ultimately show ?thesis using r by blast
  qed
next
  case STATE_ESC
  with p have room: "length esc < TERM_ESC_BUFFLINE_SIZE cfg"
    by (simp add: esc_pending_ok_def)
  from esc_complete_rendered [OF cfg ok, of "esc @ [chr]" STATE_ESC] obtain state1 st1 where
    c: "esc_complete cfg (esc @ [chr]) (STATE_ESC, st) = Some (state1, st1)"
    and r1: "rendered cfg st st1" by blast
  from esc_overflow_rendered [OF cfg renderedD(1) [OF r1], of "esc @ [chr]" state1] obtain state' st' where
    ov: "esc_overflow cfg (esc @ [chr]) (state1, st1) = Some (state', esc @ [chr], st')"
    and r2: "rendered cfg st1 st'"
    and m: "state' = STATE_NORMAL \<or> (state' = state1 \<and> length (esc @ [chr]) < TERM_ESC_BUFFLINE_SIZE cfg)"
    by blast
  from STATE_ESC room c ov
  have "print_step cfg chr (state, esc, st) = Some (state', esc @ [chr], st')"
    by (simp add: print_step_def)
  moreover from m have "esc_pending_ok cfg state' (esc @ [chr])"
    by (auto simp: esc_pending_ok_def)
  ultimately show ?thesis using rendered_trans [OF r1 r2] by blast
qed

lemma print_loop_rendered:
  assumes cfg: "config_ok cfg" and ok: "term_ok cfg st" and p: "esc_pending_ok cfg state esc"
  shows "\<exists>state' esc' st'. print_loop cfg str (state, esc, st) = Some (state', esc', st')
           \<and> esc_pending_ok cfg state' esc' \<and> rendered cfg st st'"
  using ok p
proof (induction str arbitrary: state esc st)
  case Nil
  then show ?case by (simp add: rendered_refl)
next
  case (Cons chr str)
  show ?case
  proof (cases "chr = NUL")
    case True
    with Cons.prems show ?thesis by (simp add: rendered_refl)
  next
    case False
    from print_step_rendered [OF cfg Cons.prems, of chr] obtain state1 esc1 st1 where
      s1: "print_step cfg chr (state, esc, st) = Some (state1, esc1, st1)"
      and p1: "esc_pending_ok cfg state1 esc1" and r1: "rendered cfg st st1" by blast
    from Cons.IH [OF renderedD(1) [OF r1] p1] obtain state' esc' st' where
      s2: "print_loop cfg str (state1, esc1, st1) = Some (state', esc', st')"
      and p2: "esc_pending_ok cfg state' esc'" and r2: "rendered cfg st1 st'" by blast
    from False s1 s2 have "print_loop cfg (chr # str) (state, esc, st) = Some (state', esc', st')"
      by simp
    with p2 rendered_trans [OF r1 r2] show ?thesis by blast
  qed
qed

lemma term_printString_rendered:
  assumes cfg: "config_ok cfg" and ok: "term_ok cfg st"
  shows "\<exists>state esc st1 st2.
           print_loop cfg str (STATE_NORMAL, [], st) = Some (state, esc, st1)
           \<and> (if state = STATE_ESC then render_chars cfg esc st1 = Some st2 else st2 = st1)
           \<and> rendered cfg st st2
           \<and> term_printString cfg str st = Some (display_termRefresh st2)"
proof -
  have "esc_pending_ok cfg STATE_NORMAL []" by (simp add: esc_pending_ok_def)
  from print_loop_rendered [OF cfg ok this, of str] obtain state esc st1 where
    l: "print_loop cfg str (STATE_NORMAL, [], st) = Some (state, esc, st1)"
    and r1: "rendered cfg st st1" by blast
  show ?thesis
  proof (cases "state = STATE_ESC")
    case True
    from render_chars_rendered [OF cfg renderedD(1) [OF r1], of esc] obtain st2 where
      f: "render_chars cfg esc st1 = Some st2" and r2: "rendered cfg st1 st2" by blast
    from l True f have "term_printString cfg str st = Some (display_termRefresh st2)"
      by (simp add: term_printString_def)
    with l True f rendered_trans [OF r1 r2] show ?thesis by auto
  next
    case False
    with l have "term_printString cfg str st = Some (display_termRefresh st1)"
      by (simp add: term_printString_def)
    with l False r1 show ?thesis by auto
  qed
qed

lemma term_ok_refresh: "term_ok cfg st \<Longrightarrow> term_ok cfg (display_termRefresh st)"
  by (simp add: term_ok_def cursor_in_bounds_def display_termRefresh_def)

lemma term_printString_single:
  assumes "chr \<noteq> NUL" and "chr \<noteq> TERM_ESC_CHAR"
  shows "term_printString cfg [chr] st =
           (case termRenderChar cfg chr st of
              None \<Rightarrow> None
            | Some st' \<Rightarrow> Some (display_termRefresh st'))"
  using assms by (simp add: term_printString_def print_step_def split: option.splits)

subsection \<open>Printing strings\<close>

text \<open>
  Claim C10. \<^verbatim>\<open>term_printString\<close> on the empty string leaves the screen, the cursor, the
  previous cursor and the input buffer as they are and asks the display for exactly one
  refresh: the only change is the \<open>TermRefresh\<close> added to the calls made to the display.
\<close>

theorem term_printString_empty:
  "term_printString cfg [] st = Some (display_termRefresh st)
   \<and> screen (display_termRefresh st) = screen st
   \<and> cursorX (display_termRefresh st) = cursorX st
   \<and> cursorY (display_termRefresh st) = cursorY st
   \<and> prevCursorX (display_termRefresh st) = prevCursorX st
   \<and> prevCursorY (display_termRefresh st) = prevCursorY st
   \<and> inputBuffer (display_termRefresh st) = inputBuffer st
   \<and> inputLength (display_termRefresh st) = inputLength st
   \<and> display (display_termRefresh st) = display st @ [TermRefresh]"
  by (simp add: term_printString_def display_termRefresh_def)

text \<open>The empty string printed on the initial terminal.\<close>

theorem term_printString_empty_witness:
  "term_printString example_config [] (term_state_init example_config)
     = Some ((term_state_init example_config)\<lparr>display := [TermRefresh]\<rparr>)"
  using term_printString_empty [of example_config "term_state_init example_config"]
  by (simp add: display_termRefresh_def term_state_init_def)

text \<open>
  Claim C9. For a command byte outside \<open>A B C D E H J K Y\<close> (and not NUL, which would end
  the string), and an escape buffer of more than two bytes, \<^verbatim>\<open>term_printString\<close> on ESC
  followed by that byte ends its loop in \<open>STATE_NORMAL\<close> and changes nothing but the
  refresh request at the end: screen, cursor and previous cursor are as before and the
  two bytes are not written to the screen or to the display.
\<close>

theorem unrecognised_escape_is_silent:
  assumes room: "2 < TERM_ESC_BUFFLINE_SIZE cfg"
    and cmd: "command \<notin> set ''ABCDEHJKY''" and nz: "command \<noteq> NUL"
  shows "print_loop cfg [TERM_ESC_CHAR, command] (STATE_NORMAL, [], st)
           = Some (STATE_NORMAL, [TERM_ESC_CHAR, command], st)
         \<and> term_printString cfg [TERM_ESC_CHAR, command] st = Some (display_termRefresh st)
         \<and> screen (display_termRefresh st) = screen st
         \<and> cursorX (display_termRefresh st) = cursorX st
         \<and> cursorY (display_termRefresh st) = cursorY st
         \<and> prevCursorX (display_termRefresh st) = prevCursorX st
         \<and> prevCursorY (display_termRefresh st) = prevCursorY st
         \<and> display (display_termRefresh st) = display st @ [TermRefresh]"
proof -
  have e: "TERM_ESC_CHAR \<noteq> NUL" by (simp add: TERM_ESC_CHAR_def NUL_def)
  from room have s1: "print_step cfg TERM_ESC_CHAR (STATE_NORMAL, [], st)
                        = Some (STATE_ESC, [TERM_ESC_CHAR], st)"
    by (simp add: print_step_def)
  have v: "vt52ProcessSequence cfg [TERM_ESC_CHAR, command] st = Some st"
    by (rule vt52_unrecognised) (use cmd in simp_all)
  from cmd have ny: "command \<noteq> CHR ''Y''" by simp
  from v ny have c: "esc_complete cfg [TERM_ESC_CHAR, command] (STATE_ESC, st) = Some (STATE_NORMAL, st)"
    by (simp add: esc_complete_def)
  from room have o: "esc_overflow cfg [TERM_ESC_CHAR, command] (STATE_NORMAL, st)
                       = Some (STATE_NORMAL, [TERM_ESC_CHAR, command], st)"
    by (simp add: esc_overflow_def)
  from room c o have s2: "print_step cfg command (STATE_ESC, [TERM_ESC_CHAR], st)
                            = Some (STATE_NORMAL, [TERM_ESC_CHAR, command], st)"
    by (simp add: print_step_def)
  from e nz s1 s2 have l: "print_loop cfg [TERM_ESC_CHAR, command] (STATE_NORMAL, [], st)
           = Some (STATE_NORMAL, [TERM_ESC_CHAR, command], st)"
    by simp
  then have "term_printString cfg [TERM_ESC_CHAR, command] st = Some (display_termRefresh st)"
    by (simp add: term_printString_def)
  with l show ?thesis by (simp add: display_termRefresh_def)
qed

text \<open>ESC Z on the initial terminal.\<close>

theorem unrecognised_escape_is_silent_witness:
  "2 < TERM_ESC_BUFFLINE_SIZE example_config
   \<and> CHR ''Z'' \<notin> set ''ABCDEHJKY'' \<and> CHR ''Z'' \<noteq> NUL
   \<and> term_printString example_config [TERM_ESC_CHAR, CHR ''Z''] (term_state_init example_config)
       = Some ((term_state_init example_config)\<lparr>display := [TermRefresh]\<rparr>)"
proof -
  have h1: "2 < TERM_ESC_BUFFLINE_SIZE example_config" by (simp add: example_config_def)
  have h2: "CHR ''Z'' \<notin> set ''ABCDEHJKY''" by simp
  have h3: "CHR ''Z'' \<noteq> NUL" by (simp add: NUL_def)
  from unrecognised_escape_is_silent [OF h1 h2 h3, of "term_state_init example_config"] h1 h2 h3
  show ?thesis by (simp add: display_termRefresh_def term_state_init_def)
qed

lemma print_loop_address:
  assumes room: "4 < TERM_ESC_BUFFLINE_SIZE cfg" and r: "r \<noteq> NUL" and c: "c \<noteq> NUL"
  shows "print_loop cfg [TERM_ESC_CHAR, CHR ''Y'', r, c] (STATE_NORMAL, [], st) =
           (case vt52ProcessSequence cfg [TERM_ESC_CHAR, CHR ''Y'', r, c] st of
              None \<Rightarrow> None
            | Some st' \<Rightarrow> Some (STATE_NORMAL, [TERM_ESC_CHAR, CHR ''Y'', r, c], st'))"
proof -
  have e: "TERM_ESC_CHAR \<noteq> NUL" and y: "CHR ''Y'' \<noteq> NUL"
    by (simp_all add: TERM_ESC_CHAR_def NUL_def)
  from room have s1: "print_step cfg TERM_ESC_CHAR (STATE_NORMAL, [], st)
                        = Some (STATE_ESC, [TERM_ESC_CHAR], st)"
    by (simp add: print_step_def)
  from room have s2: "print_step cfg (CHR ''Y'') (STATE_ESC, [TERM_ESC_CHAR], st)
                        = Some (STATE_ESC, [TERM_ESC_CHAR, CHR ''Y''], st)"
    by (simp add: print_step_def esc_complete_def esc_overflow_def)
  from room have s3: "print_step cfg r (STATE_ESC, [TERM_ESC_CHAR, CHR ''Y''], st)
                        = Some (STATE_ESC, [TERM_ESC_CHAR, CHR ''Y'', r], st)"
    by (simp add: print_step_def esc_complete_def esc_overflow_def)
  from room have s4: "print_step cfg c (STATE_ESC, [TERM_ESC_CHAR, CHR ''Y'', r], st)
                        = (case vt52ProcessSequence cfg [TERM_ESC_CHAR, CHR ''Y'', r, c] st of
                             None \<Rightarrow> None
                           | Some st' \<Rightarrow> Some (STATE_NORMAL, [TERM_ESC_CHAR, CHR ''Y'', r, c], st'))"
    by (simp add: print_step_def esc_complete_def esc_overflow_def split: option.splits)
  from e y r c s1 s2 s3 s4 show ?thesis by (simp split: option.splits)
qed

lemma of_char_biased: "n < 256 \<Longrightarrow> (of_char (char_of n) :: nat) = n"
  by (simp add: of_char_of)

lemma biased_not_NUL: "0 < n \<Longrightarrow> n < 256 \<Longrightarrow> char_of (n :: nat) \<noteq> NUL"
proof
  assume n: "0 < n" "n < 256" and "char_of n = NUL"
  then have "(of_char (char_of n) :: nat) = of_char NUL" by simp
  with n show False by (simp add: of_char_of NUL_def)
qed

text \<open>
  Claim C5. With an escape buffer of more than four bytes, a grid with more than 5
  columns and between 3 and 99 rows, and offsets that keep the biased bytes within a
  byte: from every starting state, printing ESC Y (2 + offset) (5 + offset) moves the
  cursor to column 5, row 2; printing ESC Y (99 + offset) followed by any column byte
  leaves the cursor where it was. In both cases the screen is untouched (nothing is
  echoed), the display is sent only the cursor redraw and the final refresh, and the
  loop ends in \<open>STATE_NORMAL\<close>.
\<close>

theorem direct_cursor_addressing:
  assumes room: "4 < TERM_ESC_BUFFLINE_SIZE cfg"
    and x: "5 < TERM_SCREEN_SIZE_X cfg" and x256: "TERM_SCREEN_SIZE_X cfg < 256"
    and y: "2 < TERM_SCREEN_SIZE_Y cfg" and y99: "TERM_SCREEN_SIZE_Y cfg \<le> 99"
    and px: "TERM_POS_X cfg + 5 < 256" and py: "TERM_POS_Y cfg + 99 < 256"
    and col: "col \<noteq> NUL"
  shows "term_printString cfg
           [TERM_ESC_CHAR, CHR ''Y'', char_of (2 + TERM_POS_Y cfg), char_of (5 + TERM_POS_X cfg)] st
         = Some (st\<lparr>cursorX := 5, cursorY := 2, prevCursorX := 5, prevCursorY := 2,
                    display := display st
                      @ [TermChar (unat (prevCursorX st)) (unat (prevCursorY st)) CHR '' '',
                         TermCursor 5 2, TermRefresh]\<rparr>)
       \<and> map_option fst (print_loop cfg
           [TERM_ESC_CHAR, CHR ''Y'', char_of (2 + TERM_POS_Y cfg), char_of (5 + TERM_POS_X cfg)]
           (STATE_NORMAL, [], st)) = Some STATE_NORMAL
       \<and> term_printString cfg [TERM_ESC_CHAR, CHR ''Y'', char_of (99 + TERM_POS_Y cfg), col] st
         = Some (st\<lparr>prevCursorX := cursorX st, prevCursorY := cursorY st,
                    display := display st
                      @ [TermChar (unat (prevCursorX st)) (unat (prevCursorY st)) CHR '' '',
                         TermCursor (unat (cursorX st)) (unat (cursorY st)), TermRefresh]\<rparr>)
       \<and> map_option fst (print_loop cfg
           [TERM_ESC_CHAR, CHR ''Y'', char_of (99 + TERM_POS_Y cfg), col]
           (STATE_NORMAL, [], st)) = Some STATE_NORMAL"
proof -
  let ?r2 = "char_of (2 + TERM_POS_Y cfg) :: char"
  let ?c5 = "char_of (5 + TERM_POS_X cfg) :: char"
  let ?r99 = "char_of (99 + TERM_POS_Y cfg) :: char"
  from py have r2: "(of_char ?r2 :: nat) = 2 + TERM_POS_Y cfg" by (intro of_char_biased) simp
  from px have c5: "(of_char ?c5 :: nat) = 5 + TERM_POS_X cfg" by (intro of_char_biased) simp
  from py have r99: "(of_char ?r99 :: nat) = 99 + TERM_POS_Y cfg" by (intro of_char_biased) simp
  from py have n2: "?r2 \<noteq> NUL" by (intro biased_not_NUL) simp_all
  from px have n5: "?c5 \<noteq> NUL" by (intro biased_not_NUL) simp_all
  from py have n99: "?r99 \<noteq> NUL" by (intro biased_not_NUL) simp_all
  let ?moved = "st\<lparr>cursorY := 2, cursorX := 5\<rparr>"
  have v1: "vt52ProcessSequence cfg [TERM_ESC_CHAR, CHR ''Y'', ?r2, ?c5] st
              = termRenderChar cfg NUL ?moved"
  proof -
    have "vt52ProcessSequence cfg [TERM_ESC_CHAR, CHR ''Y'', ?r2, ?c5] st
            = termRenderChar cfg NUL
                (if int (of_char ?r2 :: nat) - int (TERM_POS_Y cfg) \<ge> 0
                    \<and> int (of_char ?r2 :: nat) - int (TERM_POS_Y cfg) < int (TERM_SCREEN_SIZE_Y cfg)
                    \<and> int (of_char ?c5 :: nat) - int (TERM_POS_X cfg) \<ge> 0
                    \<and> int (of_char ?c5 :: nat) - int (TERM_POS_X cfg) < int (TERM_SCREEN_SIZE_X cfg)
                 then st\<lparr>cursorY := word_of_int (int (of_char ?r2 :: nat) - int (TERM_POS_Y cfg)),
                         cursorX := word_of_int (int (of_char ?c5 :: nat) - int (TERM_POS_X cfg))\<rparr>
                 else st)"
      by (simp add: vt52_address del: of_char_of)
    also have "\<dots> = termRenderChar cfg NUL ?moved"
      unfolding r2 c5 using x y by simp
    finally show ?thesis .
  qed
  have v2: "vt52ProcessSequence cfg [TERM_ESC_CHAR, CHR ''Y'', ?r99, col] st
              = termRenderChar cfg NUL st"
  proof -
    have "vt52ProcessSequence cfg [TERM_ESC_CHAR, CHR ''Y'', ?r99, col] st
            = termRenderChar cfg NUL
                (if int (of_char ?r99 :: nat) - int (TERM_POS_Y cfg) \<ge> 0
                    \<and> int (of_char ?r99 :: nat) - int (TERM_POS_Y cfg) < int (TERM_SCREEN_SIZE_Y cfg)
                    \<and> int (of_char col :: nat) - int (TERM_POS_X cfg) \<ge> 0
                    \<and> int (of_char col :: nat) - int (TERM_POS_X cfg) < int (TERM_SCREEN_SIZE_X cfg)
                 then st\<lparr>cursorY := word_of_int (int (of_char ?r99 :: nat) - int (TERM_POS_Y cfg)),
                         cursorX := word_of_int (int (of_char col :: nat) - int (TERM_POS_X cfg))\<rparr>
                 else st)"
      by (simp add: vt52_address del: of_char_of)
    also have "\<dots> = termRenderChar cfg NUL st"
      unfolding r99 using y99 by simp
    finally show ?thesis .
  qed
  note l1 = print_loop_address [OF room n2 n5, of st, unfolded v1 termRenderChar_NUL]
  note l2 = print_loop_address [OF room n99 col, of st, unfolded v2 termRenderChar_NUL]
  have a: "term_printString cfg [TERM_ESC_CHAR, CHR ''Y'', ?r2, ?c5] st
         = Some (st\<lparr>cursorX := 5, cursorY := 2, prevCursorX := 5, prevCursorY := 2,
                    display := display st
                      @ [TermChar (unat (prevCursorX st)) (unat (prevCursorY st)) CHR '' '',
                         TermCursor 5 2, TermRefresh]\<rparr>)"
    unfolding term_printString_def l1 by (simp add: display_termRefresh_def)
  have b: "term_printString cfg [TERM_ESC_CHAR, CHR ''Y'', ?r99, col] st
         = Some (st\<lparr>prevCursorX := cursorX st, prevCursorY := cursorY st,
                    display := display st
                      @ [TermChar (unat (prevCursorX st)) (unat (prevCursorY st)) CHR '' '',
                         TermCursor (unat (cursorX st)) (unat (cursorY st)), TermRefresh]\<rparr>)"
    unfolding term_printString_def l2 by (simp add: display_termRefresh_def)
  from a b l1 l2 show ?thesis by simp
qed

text \<open>The two sequences on the initial terminal of the 8 by 4 grid with offset 32.\<close>

theorem direct_cursor_addressing_witness:
  "4 < TERM_ESC_BUFFLINE_SIZE example_config
   \<and> 5 < TERM_SCREEN_SIZE_X example_config \<and> TERM_SCREEN_SIZE_X example_config < 256
   \<and> 2 < TERM_SCREEN_SIZE_Y example_config \<and> TERM_SCREEN_SIZE_Y example_config \<le> 99
   \<and> TERM_POS_X example_config + 5 < 256 \<and> TERM_POS_Y example_config + 99 < 256
   \<and> CHR ''%'' \<noteq> NUL
   \<and> map_option (\<lambda>s. (unat (cursorX s), unat (cursorY s)))
       (term_printString example_config [TERM_ESC_CHAR, CHR ''Y'', CHR 0x22, CHR ''%'']
          (term_state_init example_config)) = Some (5, 2)
   \<and> map_option (\<lambda>s. (unat (cursorX s), unat (cursorY s)))
       (term_printString example_config [TERM_ESC_CHAR, CHR ''Y'', CHR 0x83, CHR ''%'']
          (term_state_init example_config)) = Some (0, 0)"
proof -
  have h: "4 < TERM_ESC_BUFFLINE_SIZE example_config"
    "5 < TERM_SCREEN_SIZE_X example_config" "TERM_SCREEN_SIZE_X example_config < 256"
    "2 < TERM_SCREEN_SIZE_Y example_config" "TERM_SCREEN_SIZE_Y example_config \<le> 99"
    "TERM_POS_X example_config + 5 < 256" "TERM_POS_Y example_config + 99 < 256"
    by (simp_all add: example_config_def)
  have n: "CHR ''%'' \<noteq> NUL" by (simp add: NUL_def)
  have c: "(char_of (2 + TERM_POS_Y example_config) :: char) = CHR 0x22"
    "(char_of (5 + TERM_POS_X example_config) :: char) = CHR ''%''"
    "(char_of (99 + TERM_POS_Y example_config) :: char) = CHR 0x83"
    by code_simp+
  note t = direct_cursor_addressing [OF h n, of "term_state_init example_config", unfolded c]
  note t1 = t [THEN conjunct1]
  note t2 = t [THEN conjunct2, THEN conjunct2, THEN conjunct1]
  have "map_option (\<lambda>s. (unat (cursorX s), unat (cursorY s)))
       (term_printString example_config [TERM_ESC_CHAR, CHR ''Y'', CHR 0x22, CHR ''%'']
          (term_state_init example_config)) = Some (5, 2)"
    unfolding t1 by simp
  moreover have "map_option (\<lambda>s. (unat (cursorX s), unat (cursorY s)))
       (term_printString example_config [TERM_ESC_CHAR, CHR ''Y'', CHR 0x83, CHR ''%'']
          (term_state_init example_config)) = Some (0, 0)"
    unfolding t2 by (simp add: term_state_init_def)
  ultimately show ?thesis using h n by simp
qed

lemma run_op_term_ok:
  assumes cfg: "config_ok cfg" and ok: "term_ok cfg st"
  shows "\<exists>st'. run_op cfg op st = Some st' \<and> term_ok cfg st'"
proof (cases op)
  case (PutChar chr)
  with termPutChar_rendered [OF cfg ok, of chr] show ?thesis by (auto dest: renderedD(1))
next
  case (RenderChar chr)
  with termRenderChar_rendered [OF cfg ok, of chr] show ?thesis by (auto dest: renderedD(1))
next
  case (ProcessSequence seq)
  with vt52ProcessSequence_rendered [OF cfg ok, of seq] show ?thesis by (auto dest: renderedD(1))
next
  case (PrintString str)
  from term_printString_rendered [OF cfg ok, of str] obtain st2 where
    "rendered cfg st st2" and "term_printString cfg str st = Some (display_termRefresh st2)"
    by blast
  with PrintString show ?thesis by (auto dest: renderedD(1) intro: term_ok_refresh)
qed

lemma run_ops_term_ok:
  assumes cfg: "config_ok cfg" and ok: "term_ok cfg st"
  shows "\<exists>st'. run_ops cfg ops st = Some st' \<and> term_ok cfg st'"
  using ok
proof (induction ops arbitrary: st)
  case Nil
  then show ?case by simp
next
  case (Cons op ops)
  from run_op_term_ok [OF cfg Cons.prems, of op] obtain st1 where
    s1: "run_op cfg op st = Some st1" and t1: "term_ok cfg st1" by blast
  from Cons.IH [OF t1] s1 show ?case by simp
qed

lemma vt52_cursor_up:
  "vt52ProcessSequence cfg [TERM_ESC_CHAR, CHR ''A''] st =
     Some ((if unat (cursorY st) > 0 then st\<lparr>cursorY := cursorY st - 1\<rparr> else st)
             \<lparr>display := display st @ [TermChar (unat (prevCursorX st)) (unat (prevCursorY st)) CHR '' '',
                 TermCursor (unat (cursorX st))
                   (unat (if unat (cursorY st) > 0 then cursorY st - 1 else cursorY st))],
              prevCursorX := cursorX st,
              prevCursorY := (if unat (cursorY st) > 0 then cursorY st - 1 else cursorY st)\<rparr>)"
  by (simp add: vt52_up termRenderChar_NUL)

lemma vt52_cursor_down:
  "vt52ProcessSequence cfg [TERM_ESC_CHAR, CHR ''B''] st =
     Some ((if unat (cursorY st) + 1 < TERM_SCREEN_SIZE_Y cfg then st\<lparr>cursorY := cursorY st + 1\<rparr> else st)
             \<lparr>display := display st @ [TermChar (unat (prevCursorX st)) (unat (prevCursorY st)) CHR '' '',
                 TermCursor (unat (cursorX st))
                   (unat (if unat (cursorY st) + 1 < TERM_SCREEN_SIZE_Y cfg then cursorY st + 1
                          else cursorY st))],
              prevCursorX := cursorX st,
              prevCursorY := (if unat (cursorY st) + 1 < TERM_SCREEN_SIZE_Y cfg then cursorY st + 1
                              else cursorY st)\<rparr>)"
  by (simp add: vt52_down termRenderChar_NUL)

lemma vt52_cursor_right:
  "vt52ProcessSequence cfg [TERM_ESC_CHAR, CHR ''C''] st =
     Some ((if unat (cursorX st) + 1 < TERM_SCREEN_SIZE_X cfg then st\<lparr>cursorX := cursorX st + 1\<rparr> else st)
             \<lparr>display := display st @ [TermChar (unat (prevCursorX st)) (unat (prevCursorY st)) CHR '' '',
                 TermCursor (unat (if unat (cursorX st) + 1 < TERM_SCREEN_SIZE_X cfg then cursorX st + 1
                                   else cursorX st))
                   (unat (cursorY st))],
              prevCursorX := (if unat (cursorX st) + 1 < TERM_SCREEN_SIZE_X cfg then cursorX st + 1
                              else cursorX st),
              prevCursorY := cursorY st\<rparr>)"
  by (simp add: vt52_right termRenderChar_NUL)

lemma vt52_cursor_left:
  "vt52ProcessSequence cfg [TERM_ESC_CHAR, CHR ''D''] st =
     Some ((if unat (cursorX st) > 0 then st\<lparr>cursorX := cursorX st - 1\<rparr> else st)
             \<lparr>display := display st @ [TermChar (unat (prevCursorX st)) (unat (prevCursorY st)) CHR '' '',
                 TermCursor (unat (if unat (cursorX st) > 0 then cursorX st - 1 else cursorX st))
                   (unat (cursorY st))],
              prevCursorX := (if unat (cursorX st) > 0 then cursorX st - 1 else cursorX st),
              prevCursorY := cursorY st\<rparr>)"
  by (simp add: vt52_left termRenderChar_NUL)

subsection \<open>The cursor stays on the grid\<close>

text \<open>
  Claim C4. On a well-formed terminal every sequence of \<^verbatim>\<open>termPutChar\<close>, \<^verbatim>\<open>termRenderChar\<close>,
  \<^verbatim>\<open>vt52ProcessSequence\<close> and \<^verbatim>\<open>term_printString\<close> runs without a fault and leaves the cursor
  within the columns and rows of the grid. A character written in the last column moves
  the cursor to column 0 of the next row; in the last row as well, the grid moves up by
  one row, its last row is blanked (NUL) and the cursor stays in the last row, as for a
  newline in the last row. The escapes A, B, C, D move the cursor by one cell and stop
  at the edge.
\<close>

theorem cursor_stays_in_bounds:
  assumes cfg: "config_ok cfg" and ok: "term_ok cfg st"
  shows "(\<exists>st'. run_ops cfg ops st = Some st' \<and> cursor_in_bounds cfg st')
       \<and> (unat (cursorX st) + 1 = TERM_SCREEN_SIZE_X cfg
            \<and> unat (cursorY st) + 1 < TERM_SCREEN_SIZE_Y cfg \<longrightarrow>
          (\<exists>st'. termPutChar cfg chr st = Some st'
             \<and> unat (cursorX st') = 0 \<and> unat (cursorY st') = unat (cursorY st) + 1
             \<and> screen st' = (screen st)[unat (cursorY st) * TERM_SCREEN_SIZE_X cfg
                                          + unat (cursorX st) := chr]))
       \<and> (unat (cursorX st) + 1 = TERM_SCREEN_SIZE_X cfg
            \<and> unat (cursorY st) + 1 = TERM_SCREEN_SIZE_Y cfg \<longrightarrow>
          (\<exists>st'. termPutChar cfg chr st = Some st'
             \<and> unat (cursorX st') = 0 \<and> unat (cursorY st') = TERM_SCREEN_SIZE_Y cfg - 1
             \<and> screen st' = drop (TERM_SCREEN_SIZE_X cfg)
                               ((screen st)[unat (cursorY st) * TERM_SCREEN_SIZE_X cfg
                                            + unat (cursorX st) := chr])
                             @ replicate (TERM_SCREEN_SIZE_X cfg) NUL))
       \<and> (unat (cursorY st) + 1 = TERM_SCREEN_SIZE_Y cfg \<longrightarrow>
          (\<exists>st'. termRenderChar cfg (CHR 0x0A) st = Some st'
             \<and> unat (cursorX st') = 0 \<and> unat (cursorY st') = TERM_SCREEN_SIZE_Y cfg - 1
             \<and> screen st' = drop (TERM_SCREEN_SIZE_X cfg) (screen st)
                             @ replicate (TERM_SCREEN_SIZE_X cfg) NUL))
       \<and> (\<exists>st'. vt52ProcessSequence cfg [TERM_ESC_CHAR, CHR ''A''] st = Some st'
             \<and> cursorX st' = cursorX st \<and> unat (cursorY st') = unat (cursorY st) - 1)
       \<and> (\<exists>st'. vt52ProcessSequence cfg [TERM_ESC_CHAR, CHR ''B''] st = Some st'
             \<and> cursorX st' = cursorX st
             \<and> unat (cursorY st') = min (unat (cursorY st) + 1) (TERM_SCREEN_SIZE_Y cfg - 1))
       \<and> (\<exists>st'. vt52ProcessSequence cfg [TERM_ESC_CHAR, CHR ''C''] st = Some st'
             \<and> cursorY st' = cursorY st
             \<and> unat (cursorX st') = min (unat (cursorX st) + 1) (TERM_SCREEN_SIZE_X cfg - 1))
       \<and> (\<exists>st'. vt52ProcessSequence cfg [TERM_ESC_CHAR, CHR ''D''] st = Some st'
             \<and> cursorY st' = cursorY st \<and> unat (cursorX st') = unat (cursorX st) - 1)"
proof -
  note b = term_okD [OF ok]
  from cfg have y0: "0 < TERM_SCREEN_SIZE_Y cfg" and x0: "0 < TERM_SCREEN_SIZE_X cfg"
    and y256: "TERM_SCREEN_SIZE_Y cfg < 256" and x256: "TERM_SCREEN_SIZE_X cfg < 256"
    by (simp_all add: config_ok_def)
  have l: "unat (word_of_int (int (TERM_SCREEN_SIZE_Y cfg) - 1) :: 8 word) = TERM_SCREEN_SIZE_Y cfg - 1"
    using y0 y256 by (rule unat8_last)
  from b(3) y256 have sy: "unat (cursorY st) + 1 < TERM_SCREEN_SIZE_Y cfg \<Longrightarrow>
      unat (cursorY st + 1) = unat (cursorY st) + 1"
    by (intro unat8_succ) simp
  from b(2) x256 have sx: "unat (cursorX st) + 1 < TERM_SCREEN_SIZE_X cfg \<Longrightarrow>
      unat (cursorX st + 1) = unat (cursorX st) + 1"
    by (intro unat8_succ) simp
  have seqs: "\<exists>st'. run_ops cfg ops st = Some st' \<and> cursor_in_bounds cfg st'"
    using run_ops_term_ok [OF cfg ok, of ops] by (auto simp: term_ok_def)
  have wrap: "unat (cursorX st) + 1 = TERM_SCREEN_SIZE_X cfg
            \<and> unat (cursorY st) + 1 < TERM_SCREEN_SIZE_Y cfg \<longrightarrow>
          (\<exists>st'. termPutChar cfg chr st = Some st'
             \<and> unat (cursorX st') = 0 \<and> unat (cursorY st') = unat (cursorY st) + 1
             \<and> screen st' = (screen st)[unat (cursorY st) * TERM_SCREEN_SIZE_X cfg
                                          + unat (cursorX st) := chr])"
  proof (intro impI, elim conjE)
    assume x: "unat (cursorX st) + 1 = TERM_SCREEN_SIZE_X cfg"
      and y: "unat (cursorY st) + 1 < TERM_SCREEN_SIZE_Y cfg"
    show "\<exists>st'. termPutChar cfg chr st = Some st'
             \<and> unat (cursorX st') = 0 \<and> unat (cursorY st') = unat (cursorY st) + 1
             \<and> screen st' = (screen st)[unat (cursorY st) * TERM_SCREEN_SIZE_X cfg
                                          + unat (cursorX st) := chr]"
      unfolding termPutChar_wrap [OF cfg ok x y] using sy [OF y] by simp
  qed
  have scroll: "unat (cursorX st) + 1 = TERM_SCREEN_SIZE_X cfg
            \<and> unat (cursorY st) + 1 = TERM_SCREEN_SIZE_Y cfg \<longrightarrow>
          (\<exists>st'. termPutChar cfg chr st = Some st'
             \<and> unat (cursorX st') = 0 \<and> unat (cursorY st') = TERM_SCREEN_SIZE_Y cfg - 1
             \<and> screen st' = drop (TERM_SCREEN_SIZE_X cfg)
                               ((screen st)[unat (cursorY st) * TERM_SCREEN_SIZE_X cfg
                                            + unat (cursorX st) := chr])
                             @ replicate (TERM_SCREEN_SIZE_X cfg) NUL)"
  proof (intro impI, elim conjE)
    assume x: "unat (cursorX st) + 1 = TERM_SCREEN_SIZE_X cfg"
      and y: "unat (cursorY st) + 1 = TERM_SCREEN_SIZE_Y cfg"
    show "\<exists>st'. termPutChar cfg chr st = Some st'
             \<and> unat (cursorX st') = 0 \<and> unat (cursorY st') = TERM_SCREEN_SIZE_Y cfg - 1
             \<and> screen st' = drop (TERM_SCREEN_SIZE_X cfg)
                               ((screen st)[unat (cursorY st) * TERM_SCREEN_SIZE_X cfg
                                            + unat (cursorX st) := chr])
                             @ replicate (TERM_SCREEN_SIZE_X cfg) NUL"
      unfolding termPutChar_scroll [OF cfg ok x y] using l by simp
  qed
  have newline: "unat (cursorY st) + 1 = TERM_SCREEN_SIZE_Y cfg \<longrightarrow>
          (\<exists>st'. termRenderChar cfg (CHR 0x0A) st = Some st'
             \<and> unat (cursorX st') = 0 \<and> unat (cursorY st') = TERM_SCREEN_SIZE_Y cfg - 1
             \<and> screen st' = drop (TERM_SCREEN_SIZE_X cfg) (screen st)
                             @ replicate (TERM_SCREEN_SIZE_X cfg) NUL)"
  proof
    assume y: "unat (cursorY st) + 1 = TERM_SCREEN_SIZE_Y cfg"
    have nl: "CHR 0x0A = CHR 0x0A \<or> CHR 0x0A = CHR 0x0D" by simp
    show "\<exists>st'. termRenderChar cfg (CHR 0x0A) st = Some st'
             \<and> unat (cursorX st') = 0 \<and> unat (cursorY st') = TERM_SCREEN_SIZE_Y cfg - 1
             \<and> screen st' = drop (TERM_SCREEN_SIZE_X cfg) (screen st)
                             @ replicate (TERM_SCREEN_SIZE_X cfg) NUL"
      unfolding termRenderChar_newline_scroll [OF cfg nl b(1) y] using l by simp
  qed
  have up: "\<exists>st'. vt52ProcessSequence cfg [TERM_ESC_CHAR, CHR ''A''] st = Some st'
             \<and> cursorX st' = cursorX st \<and> unat (cursorY st') = unat (cursorY st) - 1"
    unfolding vt52_cursor_up by (simp add: unat8_pred)
  have down: "\<exists>st'. vt52ProcessSequence cfg [TERM_ESC_CHAR, CHR ''B''] st = Some st'
             \<and> cursorX st' = cursorX st
             \<and> unat (cursorY st') = min (unat (cursorY st) + 1) (TERM_SCREEN_SIZE_Y cfg - 1)"
  proof (cases "unat (cursorY st) + 1 < TERM_SCREEN_SIZE_Y cfg")
    case True
    with sy [OF True] show ?thesis unfolding vt52_cursor_down by simp
  next
    case False
    with b(3) show ?thesis unfolding vt52_cursor_down by simp
  qed
  have right: "\<exists>st'. vt52ProcessSequence cfg [TERM_ESC_CHAR, CHR ''C''] st = Some st'
             \<and> cursorY st' = cursorY st
             \<and> unat (cursorX st') = min (unat (cursorX st) + 1) (TERM_SCREEN_SIZE_X cfg - 1)"
  proof (cases "unat (cursorX st) + 1 < TERM_SCREEN_SIZE_X cfg")
    case True
    with sx [OF True] show ?thesis unfolding vt52_cursor_right by simp
  next
    case False
    with b(2) show ?thesis unfolding vt52_cursor_right by simp
  qed
  have left: "\<exists>st'. vt52ProcessSequence cfg [TERM_ESC_CHAR, CHR ''D''] st = Some st'
             \<and> cursorY st' = cursorY st \<and> unat (cursorX st') = unat (cursorX st) - 1"
    unfolding vt52_cursor_left by (simp add: unat8_pred)
  from seqs wrap scroll newline up down right left show ?thesis by (intro conjI)
qed

text \<open>The end of the first row and the last cell of the 8 by 4 grid.\<close>

theorem cursor_stays_in_bounds_witness:
  "config_ok example_config
   \<and> term_ok example_config (example_state 7 0) \<and> term_ok example_config (example_state 7 3)
   \<and> (\<exists>st'. run_ops example_config
               [PrintString ''hello, world'', ProcessSequence [TERM_ESC_CHAR, CHR ''B''],
                RenderChar (CHR 0x0A), PutChar CHR ''x''] (example_state 7 3) = Some st'
         \<and> cursor_in_bounds example_config st')
   \<and> map_option (\<lambda>s. (unat (cursorX s), unat (cursorY s)))
        (termPutChar example_config CHR ''x'' (example_state 7 0)) = Some (0, 1)
   \<and> map_option (\<lambda>s. (unat (cursorX s), unat (cursorY s)))
        (termPutChar example_config CHR ''x'' (example_state 7 3)) = Some (0, 3)
   \<and> map_option (\<lambda>s. (unat (cursorX s), unat (cursorY s)))
        (vt52ProcessSequence example_config [TERM_ESC_CHAR, CHR ''C''] (example_state 7 3))
      = Some (7, 3)"
proof -
  have cfg: "config_ok example_config" by (simp add: config_ok_def example_config_def)
  have ok0: "term_ok example_config (example_state 7 0)"
    by (simp add: term_ok_def cursor_in_bounds_def example_state_def term_state_init_def
        TERM_SCREEN_SIZE_def example_config_def)
  have ok3: "term_ok example_config (example_state 7 3)"
    by (simp add: term_ok_def cursor_in_bounds_def example_state_def term_state_init_def
        TERM_SCREEN_SIZE_def example_config_def)
  have c0: "unat (cursorX (example_state 7 0)) + 1 = TERM_SCREEN_SIZE_X example_config
            \<and> unat (cursorY (example_state 7 0)) + 1 < TERM_SCREEN_SIZE_Y example_config"
    by (simp add: example_state_def example_config_def)
  have c3: "unat (cursorX (example_state 7 3)) + 1 = TERM_SCREEN_SIZE_X example_config
            \<and> unat (cursorY (example_state 7 3)) + 1 = TERM_SCREEN_SIZE_Y example_config"
    by (simp add: example_state_def example_config_def)
  have v: "unat (cursorX (example_state 7 3)) = 7" "unat (cursorY (example_state 7 3)) = 3"
    "unat (cursorY (example_state 7 0)) = 0"
    "TERM_SCREEN_SIZE_X example_config = 8" "TERM_SCREEN_SIZE_Y example_config = 4"
    by (simp_all add: example_state_def example_config_def)
  note a = cursor_stays_in_bounds [OF cfg ok0, of "[]" "CHR ''x''"]
  note b = cursor_stays_in_bounds [OF cfg ok3,
      of "[PrintString ''hello, world'', ProcessSequence [TERM_ESC_CHAR, CHR ''B''],
           RenderChar (CHR 0x0A), PutChar CHR ''x'']" "CHR ''x''"]
  from a c0 have w: "map_option (\<lambda>s. (unat (cursorX s), unat (cursorY s)))
        (termPutChar example_config CHR ''x'' (example_state 7 0)) = Some (0, 1)"
    by (auto simp: v)
  from b c3 have s: "map_option (\<lambda>s. (unat (cursorX s), unat (cursorY s)))
        (termPutChar example_config CHR ''x'' (example_state 7 3)) = Some (0, 3)"
    by (auto simp: v)
  from b have r: "map_option (\<lambda>s. (unat (cursorX s), unat (cursorY s)))
        (vt52ProcessSequence example_config [TERM_ESC_CHAR, CHR ''C''] (example_state 7 3))
      = Some (7, 3)"
    by (auto simp: v example_state_def)
  from b have q: "\<exists>st'. run_ops example_config
               [PrintString ''hello, world'', ProcessSequence [TERM_ESC_CHAR, CHR ''B''],
                RenderChar (CHR 0x0A), PutChar CHR ''x''] (example_state 7 3) = Some st'
         \<and> cursor_in_bounds example_config st'"
    by blast
  from cfg ok0 ok3 q w s r show ?thesis by (intro conjI)
qed

subsection \<open>Backspace\<close>

text \<open>
  Claim C8. With a non-empty input buffer and the cursor at (0,0), a backspace given to
  \<^verbatim>\<open>termInputChar\<close> removes the last character of the buffer (the length goes down by one,
  its place is set to NUL) and returns early: the screen is as before, and the display
  was sent the erasure of the previous cursor glyph only, neither a cursor redraw nor a
  refresh.
\<close>

theorem backspace_at_origin_keeps_screen:
  assumes x: "cursorX st = 0" and y: "cursorY st = 0"
    and n: "0 < inputLength st" and le: "inputLength st \<le> length (inputBuffer st)"
  shows "termInputChar cfg commands (CHR 0x08) st =
           Some (st\<lparr>inputLength := inputLength st - 1,
                     inputBuffer := (inputBuffer st)[inputLength st - 1 := NUL],
                     display := display st
                       @ [TermChar (unat (prevCursorX st)) (unat (prevCursorY st)) CHR '' '']\<rparr>)"
  using assms by (simp add: termInputChar_def Let_def display_termChar_def)

text \<open>One character typed, cursor at the origin.\<close>

theorem backspace_at_origin_keeps_screen_witness:
  "cursorX example_typed = 0 \<and> cursorY example_typed = 0
   \<and> 0 < inputLength example_typed \<and> inputLength example_typed \<le> length (inputBuffer example_typed)
   \<and> termInputChar example_config [] (CHR 0x08) example_typed =
       Some ((term_state_init example_config)\<lparr>display := [TermChar 0 0 CHR '' '']\<rparr>)"
proof -
  have h: "cursorX example_typed = 0" "cursorY example_typed = 0"
    "0 < inputLength example_typed" "inputLength example_typed \<le> length (inputBuffer example_typed)"
    by (simp_all add: example_typed_def term_state_init_def)
  have r: "replicate (TERM_INPUT_BUFFER_SIZE example_config) NUL = NUL # replicate 63 NUL"
    by (simp add: example_config_def replicate_Suc [symmetric] del: replicate_Suc)
  from backspace_at_origin_keeps_screen [OF h, of example_config "[]"] h show ?thesis
    by (simp add: example_typed_def term_state_init_def r)
qed

text \<open>
  Claim C7 (as amended). A backspace on an empty input buffer leaves the buffer empty
  and the cursor where it is (the display gets the cursor redraw and a refresh). A
  backspace with the cursor at (0,0) leaves the cursor at (0,0); the buffer length goes
  down by one unless it was 0 already.
\<close>

theorem backspace_empty_or_origin:
  "(inputLength st = 0 \<longrightarrow>
      termInputChar cfg commands (CHR 0x08) st =
        Some (st\<lparr>prevCursorX := cursorX st, prevCursorY := cursorY st,
                  display := display st
                    @ [TermChar (unat (prevCursorX st)) (unat (prevCursorY st)) CHR '' '',
                       TermCursor (unat (cursorX st)) (unat (cursorY st)), TermRefresh]\<rparr>))
   \<and> (cursorX st = 0 \<and> cursorY st = 0 \<and> inputLength st \<le> length (inputBuffer st) \<longrightarrow>
        (\<exists>st'. termInputChar cfg commands (CHR 0x08) st = Some st'
           \<and> cursorX st' = 0 \<and> cursorY st' = 0
           \<and> inputLength st' = inputLength st - 1))"
proof (intro conjI impI)
  assume "inputLength st = 0"
  then show "termInputChar cfg commands (CHR 0x08) st =
        Some (st\<lparr>prevCursorX := cursorX st, prevCursorY := cursorY st,
                  display := display st
                    @ [TermChar (unat (prevCursorX st)) (unat (prevCursorY st)) CHR '' '',
                       TermCursor (unat (cursorX st)) (unat (cursorY st)), TermRefresh]\<rparr>)"
    by (simp add: termInputChar_def Let_def display_termChar_def backspace_finish_def
        display_termCursor_def display_termRefresh_def)
next
  assume a: "cursorX st = 0 \<and> cursorY st = 0 \<and> inputLength st \<le> length (inputBuffer st)"
  show "\<exists>st'. termInputChar cfg commands (CHR 0x08) st = Some st'
           \<and> cursorX st' = 0 \<and> cursorY st' = 0
           \<and> inputLength st' = inputLength st - 1"
  proof (cases "inputLength st = 0")
    case True
    with a show ?thesis
      by (simp add: termInputChar_def Let_def display_termChar_def backspace_finish_def
          display_termCursor_def display_termRefresh_def)
  next
    case False
    with a have "inputLength st - 1 < length (inputBuffer st)" by linarith
    with a False show ?thesis
      by (simp add: termInputChar_def Let_def display_termChar_def)
  qed
qed

text \<open>The empty buffer, and the buffer with one character, both with the cursor at the origin.\<close>

theorem backspace_empty_or_origin_witness:
  "inputLength (term_state_init example_config) = 0
   \<and> cursorX example_typed = 0 \<and> cursorY example_typed = 0
   \<and> inputLength example_typed \<le> length (inputBuffer example_typed)
   \<and> termInputChar example_config [] (CHR 0x08) (term_state_init example_config) =
       Some ((term_state_init example_config)
               \<lparr>display := [TermChar 0 0 CHR '' '', TermCursor 0 0, TermRefresh]\<rparr>)
   \<and> map_option (\<lambda>s. (unat (cursorX s), unat (cursorY s), inputLength s))
       (termInputChar example_config [] (CHR 0x08) example_typed) = Some (0, 0, 0)"
proof -
  have h0: "inputLength (term_state_init example_config) = 0" by (simp add: term_state_init_def)
  have h1: "cursorX example_typed = 0 \<and> cursorY example_typed = 0
            \<and> inputLength example_typed \<le> length (inputBuffer example_typed)"
    by (simp add: example_typed_def term_state_init_def)
  have l: "inputLength example_typed = 1" by (simp add: example_typed_def)
  note a = backspace_empty_or_origin [of "term_state_init example_config" example_config "[]",
      THEN conjunct1, rule_format, OF h0]
  note b = backspace_empty_or_origin [of example_typed example_config "[]",
      THEN conjunct2, rule_format, OF h1]
  from a have r0: "termInputChar example_config [] (CHR 0x08) (term_state_init example_config) =
       Some ((term_state_init example_config)
               \<lparr>display := [TermChar 0 0 CHR '' '', TermCursor 0 0, TermRefresh]\<rparr>)"
    by (simp add: term_state_init_def)
  from b l have r1: "map_option (\<lambda>s. (unat (cursorX s), unat (cursorY s), inputLength s))
       (termInputChar example_config [] (CHR 0x08) example_typed) = Some (0, 0, 0)"
    by auto
  from h0 h1 r0 r1 show ?thesis by simp
qed

text \<open>
  Claim C7 as stated fails with the cursor at (0,0) and one character in the buffer: the
  length does not stay 1.
\<close>

theorem backspace_shrinks_buffer_counterexample:
  "cursorX example_typed = 0 \<and> cursorY example_typed = 0 \<and> inputLength example_typed = 1
   \<and> map_option inputLength (termInputChar example_config [] (CHR 0x08) example_typed) = Some 0"
  by (simp add: termInputChar_def Let_def display_termChar_def example_typed_def
      term_state_init_def)

subsection \<open>The line editor dispatches a submitted line\<close>

lemma drop_takeWhile_length: "drop (length (takeWhile P xs)) xs = dropWhile P xs"
  by (induction xs) simp_all

lemma sscanf_command_arg_split:
  assumes tok: "length (first_token line) \<le> 63" and rem: "length (remainder_arg line) \<le> 63"
    and nonl: "CHR 0x0A \<notin> set line"
  shows "sscanf_command_arg line = (first_token line, remainder_arg line)"
proof (cases "dropWhile isspace line = []")
  case True
  show ?thesis
    unfolding sscanf_command_arg_def first_token_def remainder_arg_def Let_def True by simp
next
  case False
  let ?s1 = "dropWhile isspace line"
  let ?command = "take 63 (takeWhile (\<lambda>c. \<not> isspace c) ?s1)"
  from tok have c: "?command = first_token line" by (simp add: first_token_def)
  have s2: "dropWhile isspace (drop (length (first_token line)) ?s1) = remainder_arg line"
    by (simp add: first_token_def remainder_arg_def drop_takeWhile_length)
  have "set (remainder_arg line) \<subseteq> set line"
    unfolding remainder_arg_def
    by (meson set_dropWhileD subsetI)
  with nonl have "\<forall>x\<in>set (remainder_arg line). x \<noteq> CHR 0x0A" by auto
  then have tw: "takeWhile (\<lambda>c. c \<noteq> CHR 0x0A) (remainder_arg line) = remainder_arg line"
    by (simp only: takeWhile_eq_all_conv)
  from rem have a: "take 63 (takeWhile (\<lambda>c. c \<noteq> CHR 0x0A) (remainder_arg line)) = remainder_arg line"
    unfolding tw by simp
  from False have "sscanf_command_arg line =
      (?command, take 63 (takeWhile (\<lambda>c. c \<noteq> CHR 0x0A)
                            (dropWhile isspace (drop (length ?command) ?s1))))"
    by (simp only: sscanf_command_arg_def Let_def if_False)
  also have "\<dots> = (first_token line, remainder_arg line)"
    unfolding c s2 a ..
  finally show ?thesis .
qed

lemma run_matching_spec:
  "run_matching commands command arg (found, st) =
     (case call_handlers (handlers_named command commands) arg st of
        None \<Rightarrow> None
      | Some st' \<Rightarrow> Some (found \<or> handlers_named command commands \<noteq> [], st'))"
proof (induction commands arbitrary: found st)
  case Nil
  then show ?case by (simp add: handlers_named_def)
next
  case (Cons c cs)
  show ?case
  proof (cases "command = c_string (fst c)")
    case True
    then have h: "handlers_named command (c # cs) = snd c # handlers_named command cs"
      by (simp add: handlers_named_def)
    show ?thesis
    proof (cases "snd c arg st")
      case None
      with True h show ?thesis by simp
    next
      case (Some st1)
      with True h Cons.IH [of True st1] show ?thesis by (simp split: option.splits)
    qed
  next
    case False
    then have h: "handlers_named command (c # cs) = handlers_named command cs"
      by (auto simp: handlers_named_def)
    from False Cons.IH [of found st] show ?thesis unfolding h by simp
  qed
qed

lemma run_fallback_spec:
  assumes frame: "\<forall>c\<in>set commands. \<forall>a s s'. snd c a s = Some s' \<longrightarrow>
                    c_string (inputBuffer s') = c_string (inputBuffer s)"
  shows "run_fallback commands st =
           call_handlers (handlers_named [] commands) (c_string (inputBuffer st)) st"
  using frame
proof (induction commands arbitrary: st)
  case Nil
  then show ?case by (simp add: handlers_named_def)
next
  case (Cons c cs)
  from Cons.prems have fr: "\<forall>c\<in>set cs. \<forall>a s s'. snd c a s = Some s' \<longrightarrow>
                    c_string (inputBuffer s') = c_string (inputBuffer s)"
    and fc: "\<And>a s s'. snd c a s = Some s' \<Longrightarrow> c_string (inputBuffer s') = c_string (inputBuffer s)"
    by simp_all
  show ?case
  proof (cases "c_string (fst c) = []")
    case True
    then have h: "handlers_named [] (c # cs) = snd c # handlers_named [] cs"
      by (simp add: handlers_named_def)
    show ?thesis
    proof (cases "snd c (c_string (inputBuffer st)) st")
      case None
      with True h show ?thesis by simp
    next
      case (Some st1)
      from fc [OF Some] have "c_string (inputBuffer st1) = c_string (inputBuffer st)" .
      with True h Some Cons.IH [OF fr, of st1] show ?thesis by simp
    qed
  next
    case False
    then have h: "handlers_named [] (c # cs) = handlers_named [] cs"
      by (auto simp: handlers_named_def)
    from False h Cons.IH [OF fr, of st] show ?thesis by simp
  qed
qed

lemma termScrollUp_input:
  "termScrollUp cfg st = Some st' \<Longrightarrow>
   inputBuffer st' = inputBuffer st \<and> inputLength st' = inputLength st"
  by (auto simp: termScrollUp_def Let_def termScrollupBuffer_def split: if_splits)

lemma termPutChar_input:
  assumes "termPutChar cfg chr st = Some st'"
  shows "inputBuffer st' = inputBuffer st \<and> inputLength st' = inputLength st"
proof -
  let ?idx = "unat (cursorY st) * TERM_SCREEN_SIZE_X cfg + unat (cursorX st)"
  let ?st1 = "display_termChar (unat (cursorX st)) (unat (cursorY st)) chr
                    (st\<lparr>screen := (screen st)[?idx := chr]\<rparr>)"
  let ?st3 = "?st1\<lparr>cursorX := 0, cursorY := cursorY ?st1 + 1\<rparr>"
  have i3: "inputBuffer ?st3 = inputBuffer st \<and> inputLength ?st3 = inputLength st"
    by (simp add: display_termChar_def)
  from assms consider
      (a) "st' = ?st1\<lparr>cursorX := cursorX ?st1 + 1\<rparr>"
    | (b) "st' = ?st3"
    | (c) st4 where "termScrollUp cfg ?st3 = Some st4"
          "st' = st4\<lparr>cursorY := word_of_int (int (TERM_SCREEN_SIZE_Y cfg) - 1)\<rparr>"
    by (auto simp: termPutChar_def Let_def split: if_splits option.splits)
  then show ?thesis
  proof cases
    case a
    then show ?thesis by (simp add: display_termChar_def)
  next
    case b
    then show ?thesis by (simp add: display_termChar_def)
  next
    case c
    from termScrollUp_input [OF c(1)] i3 c(2) show ?thesis by simp
  qed
qed

lemma termRenderChar_newline:
  assumes "chr = CHR 0x0A \<or> chr = CHR 0x0D"
  shows "termRenderChar cfg chr st =
           (case (if TERM_SCREEN_SIZE_Y cfg \<le> unat (cursorY st + 1) then
                    (case termScrollUp cfg
                            (st\<lparr>display := display st
                                   @ [TermChar (unat (prevCursorX st)) (unat (prevCursorY st)) CHR '' ''],
                                 cursorX := 0, cursorY := cursorY st + 1\<rparr>) of
                       None \<Rightarrow> None
                     | Some st2 \<Rightarrow>
                         Some (st2\<lparr>cursorY := word_of_int (int (TERM_SCREEN_SIZE_Y cfg) - 1)\<rparr>))
                  else Some (st\<lparr>display := display st
                                   @ [TermChar (unat (prevCursorX st)) (unat (prevCursorY st)) CHR '' ''],
                                 cursorX := 0, cursorY := cursorY st + 1\<rparr>)) of
              None \<Rightarrow> None
            | Some st3 \<Rightarrow>
                Some ((display_termCursor (unat (cursorX st3)) (unat (cursorY st3)) st3)
                        \<lparr>prevCursorX := cursorX st3, prevCursorY := cursorY st3\<rparr>))"
  using assms by (auto simp: termRenderChar_def Let_def display_termChar_def)

lemma termRenderChar_input:
  assumes r: "termRenderChar cfg chr st = Some st'"
  shows "inputBuffer st' = inputBuffer st \<and> inputLength st' = inputLength st"
proof -
  consider (nul) "chr = NUL" | (nl) "chr = CHR 0x0A \<or> chr = CHR 0x0D"
    | (plain) "chr \<noteq> CHR 0x0A" "chr \<noteq> CHR 0x0D" "chr \<noteq> NUL"
    by blast
  then show ?thesis
  proof cases
    case nul
    with r show ?thesis by (auto simp: termRenderChar_NUL)
  next
    case nl
    let ?st1 = "st\<lparr>display := display st
                     @ [TermChar (unat (prevCursorX st)) (unat (prevCursorY st)) CHR '' ''],
                   cursorX := 0, cursorY := cursorY st + 1\<rparr>"
    show ?thesis
    proof (cases "TERM_SCREEN_SIZE_Y cfg \<le> unat (cursorY st + 1)")
      case True
      with r obtain st2 where s: "termScrollUp cfg ?st1 = Some st2"
        and e: "st' = (display_termCursor (unat (cursorX st2))
                         (unat (word_of_int (int (TERM_SCREEN_SIZE_Y cfg) - 1) :: 8 word))
                         (st2\<lparr>cursorY := word_of_int (int (TERM_SCREEN_SIZE_Y cfg) - 1)\<rparr>))
                      \<lparr>prevCursorX := cursorX st2,
                        prevCursorY := word_of_int (int (TERM_SCREEN_SIZE_Y cfg) - 1)\<rparr>"
        unfolding termRenderChar_newline [OF nl] by (auto split: option.splits)
      from termScrollUp_input [OF s] e show ?thesis by (simp add: display_termCursor_def)
    next
      case False
      with r show ?thesis
        unfolding termRenderChar_newline [OF nl] by (auto simp: display_termCursor_def)
    qed
  next
    case plain
    let ?st0 = "display_termChar (unat (prevCursorX st)) (unat (prevCursorY st)) CHR '' '' st"
    from r obtain st3 where p: "termPutChar cfg chr ?st0 = Some st3"
      and e: "st' = (display_termCursor (unat (cursorX st3)) (unat (cursorY st3)) st3)
                        \<lparr>prevCursorX := cursorX st3, prevCursorY := cursorY st3\<rparr>"
      unfolding termRenderChar_plain [OF plain] by (auto split: option.splits)
    from termPutChar_input [OF p] e show ?thesis
      by (simp add: display_termCursor_def display_termChar_def)
  qed
qed

lemma prompt_steps:
  "term_printString cfg ''> '' st =
     (case termRenderChar cfg CHR ''>'' st of
        None \<Rightarrow> None
      | Some st1 \<Rightarrow>
          (case termRenderChar cfg CHR '' '' st1 of
             None \<Rightarrow> None
           | Some st2 \<Rightarrow> Some (display_termRefresh st2)))"
  by (simp add: term_printString_def print_step_def NUL_def TERM_ESC_CHAR_def
      split: option.splits)

lemma finish_line_input:
  assumes "finish_line cfg st = Some st'"
  shows "inputLength st' = 0 \<and> inputBuffer st' = replicate (TERM_INPUT_BUFFER_SIZE cfg) NUL"
proof -
  let ?c = "st\<lparr>inputBuffer := replicate (TERM_INPUT_BUFFER_SIZE cfg) NUL, inputLength := 0\<rparr>"
  from assms obtain st1 st2 where
    a: "termRenderChar cfg CHR ''>'' ?c = Some st1"
    and b: "termRenderChar cfg CHR '' '' st1 = Some st2"
    and c: "st' = display_termRefresh (display_termRefresh st2)"
    by (auto simp: finish_line_def prompt_steps split: option.splits)
  from termRenderChar_input [OF a] termRenderChar_input [OF b] c show ?thesis
    by (simp add: display_termRefresh_def)
qed

lemma termInputChar_newline_raw:
  assumes nl: "chr = CHR 0x0A \<or> chr = CHR 0x0D"
  shows "termInputChar cfg commands chr st =
     (case termRenderChar cfg (CHR 0x0A) st of
           None \<Rightarrow> None
         | Some st1 \<Rightarrow>
             (case run_matching commands (fst (sscanf_command_arg (c_string (inputBuffer st1))))
                     (snd (sscanf_command_arg (c_string (inputBuffer st1)))) (False, st1) of
                     None \<Rightarrow> None
                   | Some (commandFound, st2) \<Rightarrow>
                       (case (if \<not> commandFound
                                 \<and> length (fst (sscanf_command_arg (c_string (inputBuffer st1)))) > 0
                              then run_fallback commands st2 else Some st2) of
                          None \<Rightarrow> None
                        | Some st3 \<Rightarrow> finish_line cfg st3)))"
  using nl by (auto simp: termInputChar_def split: option.splits prod.splits)

lemma termInputChar_newline:
  assumes nl: "chr = CHR 0x0A \<or> chr = CHR 0x0D"
    and tok: "length (first_token (c_string (inputBuffer st))) \<le> 63"
    and rem: "length (remainder_arg (c_string (inputBuffer st))) \<le> 63"
    and nonl: "CHR 0x0A \<notin> set (c_string (inputBuffer st))"
    and frame: "\<forall>c\<in>set commands. \<forall>a s s'. snd c a s = Some s' \<longrightarrow>
                  c_string (inputBuffer s') = c_string (inputBuffer s)"
  shows "termInputChar cfg commands chr st =
           (case termRenderChar cfg (CHR 0x0A) st of
              None \<Rightarrow> None
            | Some st1 \<Rightarrow>
                (case dispatch_line commands (c_string (inputBuffer st)) st1 of
                   None \<Rightarrow> None
                 | Some st2 \<Rightarrow> finish_line cfg st2))"
proof (cases "termRenderChar cfg (CHR 0x0A) st")
  case None
  then show ?thesis by (simp add: termInputChar_newline_raw [OF nl])
next
  case (Some st1)
  let ?line = "c_string (inputBuffer st)"
  let ?M = "handlers_named (first_token ?line) commands"
  from termRenderChar_input [OF Some] have b: "c_string (inputBuffer st1) = ?line" by simp
  note sp = sscanf_command_arg_split [OF tok rem nonl]
  show ?thesis
  proof (cases "?M = []")
    case True
    then have m: "run_matching commands (first_token ?line) (remainder_arg ?line) (False, st1)
                    = Some (False, st1)"
      by (simp add: run_matching_spec)
    from run_fallback_spec [OF frame, of st1] b
    have f: "run_fallback commands st1 = call_handlers (handlers_named [] commands) ?line st1"
      by simp
    from True have d: "dispatch_line commands ?line st1 =
        (if first_token ?line \<noteq> [] then call_handlers (handlers_named [] commands) ?line st1
         else Some st1)"
      by (simp add: dispatch_line_def)
    show ?thesis
      unfolding termInputChar_newline_raw [OF nl] Some option.case b sp fst_conv snd_conv m d
      by (simp add: f)
  next
    case False
    then have m: "run_matching commands (first_token ?line) (remainder_arg ?line) (False, st1)
                    = (case call_handlers ?M (remainder_arg ?line) st1 of
                         None \<Rightarrow> None | Some st' \<Rightarrow> Some (True, st'))"
      by (simp add: run_matching_spec cong: option.case_cong)
    from False have d: "dispatch_line commands ?line st1 = call_handlers ?M (remainder_arg ?line) st1"
      by (simp add: dispatch_line_def)
    show ?thesis
      unfolding termInputChar_newline_raw [OF nl] Some option.case b sp fst_conv snd_conv m d
      by (simp split: option.splits)
  qed
qed

lemma isspace_simps:
  "isspace CHR '' ''" "\<not> isspace CHR ''h''" "\<not> isspace CHR ''e''" "\<not> isspace CHR ''l''"
  "\<not> isspace CHR ''p''" "\<not> isspace CHR ''u''" "\<not> isspace CHR ''t''" "\<not> isspace CHR ''_''"
  "\<not> isspace CHR ''i''" "\<not> isspace CHR ''n''" "\<not> isspace CHR ''f''" "\<not> isspace CHR ''o''"
  "\<not> isspace CHR ''4''" "\<not> isspace CHR ''2''"
  by (simp_all add: isspace_def)

lemma sscanf_help: "sscanf_command_arg ''help'' = (''help'', [])"
  by (simp add: sscanf_command_arg_def isspace_simps)

lemma sscanf_put_int: "sscanf_command_arg ''put_int foo 42'' = (''put_int'', ''foo 42'')"
  by (simp add: sscanf_command_arg_def isspace_simps)

lemma help_scenario:
  assumes nl: "chr = CHR 0x0A \<or> chr = CHR 0x0D"
    and line: "c_string (inputBuffer st) = ''help''"
  shows "termInputChar cfg [(''help'', h), ([], u)] chr st =
           (case termRenderChar cfg (CHR 0x0A) st of
              None \<Rightarrow> None
            | Some st1 \<Rightarrow> (case h [] st1 of None \<Rightarrow> None | Some st2 \<Rightarrow> finish_line cfg st2))"
proof (cases "termRenderChar cfg (CHR 0x0A) st")
  case None
  then show ?thesis by (simp add: termInputChar_newline_raw [OF nl])
next
  case (Some st1)
  from termRenderChar_input [OF Some] line have b: "c_string (inputBuffer st1) = ''help''" by simp
  have n: "c_string ''help'' = ''help''" "c_string [] = []" by (simp_all add: c_string_def NUL_def)
  show ?thesis
    unfolding termInputChar_newline_raw [OF nl] Some option.case b sscanf_help fst_conv snd_conv
    by (simp add: n split: option.splits)
qed

lemma put_int_scenario:
  assumes nl: "chr = CHR 0x0A \<or> chr = CHR 0x0D"
    and line: "c_string (inputBuffer st) = ''put_int foo 42''"
  shows "termInputChar cfg [(''help'', h), ([], u)] chr st =
           (case termRenderChar cfg (CHR 0x0A) st of
              None \<Rightarrow> None
            | Some st1 \<Rightarrow>
                (case u ''put_int foo 42'' st1 of None \<Rightarrow> None | Some st2 \<Rightarrow> finish_line cfg st2))"
proof (cases "termRenderChar cfg (CHR 0x0A) st")
  case None
  then show ?thesis by (simp add: termInputChar_newline_raw [OF nl])
next
  case (Some st1)
  from termRenderChar_input [OF Some] line
  have b: "c_string (inputBuffer st1) = ''put_int foo 42''" by simp
  have n: "c_string ''help'' = ''help''" "c_string [] = []" by (simp_all add: c_string_def NUL_def)
  show ?thesis
    unfolding termInputChar_newline_raw [OF nl] Some option.case b sscanf_put_int fst_conv snd_conv
    by (simp add: n b split: option.splits)
qed

lemma termInputChar_key:
  assumes k: "k \<noteq> CHR 0x08" "k \<noteq> CHR 0x0A" "k \<noteq> CHR 0x0D"
    and room: "inputLength st + 1 < TERM_INPUT_BUFFER_SIZE cfg"
    and len: "inputLength st < length (inputBuffer st)"
  shows "termInputChar cfg commands k st =
           (case termRenderChar cfg k
                   (st\<lparr>inputBuffer := (inputBuffer st)[inputLength st := k],
                        inputLength := inputLength st + 1\<rparr>) of
              None \<Rightarrow> None
            | Some st1 \<Rightarrow> Some (display_termRefresh st1))"
proof -
  from room have "inputLength st < TERM_INPUT_BUFFER_SIZE cfg - 1" by simp
  with k len show ?thesis by (simp add: termInputChar_def)
qed

lemma type_keys_line:
  assumes cfg: "config_ok cfg"
    and keys: "\<forall>k\<in>set keys. k \<noteq> CHR 0x08 \<and> k \<noteq> CHR 0x0A \<and> k \<noteq> CHR 0x0D"
    and ok: "term_ok cfg st"
    and len: "length (inputBuffer st) = TERM_INPUT_BUFFER_SIZE cfg"
    and room: "inputLength st + length keys < TERM_INPUT_BUFFER_SIZE cfg"
  shows "\<exists>st'. type_keys cfg commands keys st = Some st' \<and> term_ok cfg st'
           \<and> inputLength st' = inputLength st + length keys
           \<and> inputBuffer st' = take (inputLength st) (inputBuffer st) @ keys
                                 @ drop (inputLength st + length keys) (inputBuffer st)"
  using keys ok len room
proof (induction keys arbitrary: st)
  case Nil
  then show ?case by simp
next
  case (Cons k ks)
  let ?n = "inputLength st"
  let ?typed = "st\<lparr>inputBuffer := (inputBuffer st)[?n := k], inputLength := ?n + 1\<rparr>"
  from Cons.prems(1) have k: "k \<noteq> CHR 0x08" "k \<noteq> CHR 0x0A" "k \<noteq> CHR 0x0D"
    and ks: "\<forall>k\<in>set ks. k \<noteq> CHR 0x08 \<and> k \<noteq> CHR 0x0A \<and> k \<noteq> CHR 0x0D" by simp_all
  from Cons.prems(3,4) have n: "?n < length (inputBuffer st)"
    and r1: "?n + 1 < TERM_INPUT_BUFFER_SIZE cfg" by simp_all
  from Cons.prems(2) have okt: "term_ok cfg ?typed"
    by (simp add: term_ok_def cursor_in_bounds_def)
  from termRenderChar_rendered [OF cfg okt, of k] obtain st1 where
    s1: "termRenderChar cfg k ?typed = Some st1" and re: "rendered cfg ?typed st1" by blast
  let ?st1 = "display_termRefresh st1"
  from s1 have step: "termInputChar cfg commands k st = Some ?st1"
    by (simp add: termInputChar_key [OF k r1 n])
  from renderedD(1-3) [OF re]
  have ok1: "term_ok cfg ?st1" and b1: "inputBuffer ?st1 = (inputBuffer st)[?n := k]"
    and l1: "inputLength ?st1 = ?n + 1"
    by (simp_all add: term_ok_refresh) (simp_all add: display_termRefresh_def)
  from b1 Cons.prems(3) have len1: "length (inputBuffer ?st1) = TERM_INPUT_BUFFER_SIZE cfg" by simp
  from l1 Cons.prems(4) have room1: "inputLength ?st1 + length ks < TERM_INPUT_BUFFER_SIZE cfg"
    by simp
  from Cons.IH [OF ks ok1 len1 room1] obtain st' where
    t: "type_keys cfg commands ks ?st1 = Some st'" and ok': "term_ok cfg st'"
    and l': "inputLength st' = inputLength ?st1 + length ks"
    and b': "inputBuffer st' = take (inputLength ?st1) (inputBuffer ?st1) @ ks
                                 @ drop (inputLength ?st1 + length ks) (inputBuffer ?st1)"
    by blast
  from n have tk: "take (Suc ?n) ((inputBuffer st)[?n := k]) = take ?n (inputBuffer st) @ [k]"
    by (simp add: take_Suc_conv_app_nth)
  have dr: "drop (Suc (?n + length ks)) ((inputBuffer st)[?n := k])
              = drop (Suc (?n + length ks)) (inputBuffer st)"
    by (rule drop_update_cancel) simp
  from b' have "inputBuffer st' = take ?n (inputBuffer st) @ (k # ks)
                                 @ drop (?n + length (k # ks)) (inputBuffer st)"
    unfolding l1 b1 by (simp add: tk dr)
  moreover from l' l1 have "inputLength st' = ?n + length (k # ks)" by simp
  moreover from step t have "type_keys cfg commands (k # ks) st = Some st'" by simp
  ultimately show ?case using ok' by blast
qed

lemma c_string_padded:
  assumes "NUL \<notin> set keys"
  shows "c_string (keys @ replicate (Suc n) NUL) = keys"
proof -
  from assms have a: "\<forall>x\<in>set keys. x \<noteq> NUL" by auto
  then have "takeWhile (\<lambda>c. c \<noteq> NUL) (keys @ replicate (Suc n) NUL)
               = keys @ takeWhile (\<lambda>c. c \<noteq> NUL) (replicate (Suc n) NUL)"
    by (intro takeWhile_append2) simp
  then show ?thesis by (simp add: c_string_def)
qed

lemma type_keys_fresh:
  assumes cfg: "config_ok cfg"
    and keys: "\<forall>k\<in>set keys. k \<noteq> CHR 0x08 \<and> k \<noteq> CHR 0x0A \<and> k \<noteq> CHR 0x0D \<and> k \<noteq> NUL"
    and ok: "term_ok cfg st"
    and fresh: "inputLength st = 0" "inputBuffer st = replicate (TERM_INPUT_BUFFER_SIZE cfg) NUL"
    and room: "length keys < TERM_INPUT_BUFFER_SIZE cfg"
  shows "\<exists>st'. type_keys cfg commands keys st = Some st'
           \<and> c_string (inputBuffer st') = keys \<and> inputLength st' = length keys"
proof -
  from keys have k: "\<forall>k\<in>set keys. k \<noteq> CHR 0x08 \<and> k \<noteq> CHR 0x0A \<and> k \<noteq> CHR 0x0D"
    and nn: "NUL \<notin> set keys" by auto
  from fresh have len: "length (inputBuffer st) = TERM_INPUT_BUFFER_SIZE cfg" by simp
  from fresh room have r: "inputLength st + length keys < TERM_INPUT_BUFFER_SIZE cfg" by simp
  from type_keys_line [OF cfg k ok len r, of commands] obtain st' where
    t: "type_keys cfg commands keys st = Some st'"
    and l: "inputLength st' = inputLength st + length keys"
    and b: "inputBuffer st' = take (inputLength st) (inputBuffer st) @ keys
                                 @ drop (inputLength st + length keys) (inputBuffer st)"
    by blast
  from room obtain m where m: "TERM_INPUT_BUFFER_SIZE cfg - length keys = Suc m"
    by (cases "TERM_INPUT_BUFFER_SIZE cfg - length keys") simp_all
  from b fresh have "inputBuffer st' = keys @ replicate (Suc m) NUL"
    by (simp add: m)
  with c_string_padded [OF nn, of m] have "c_string (inputBuffer st') = keys" by simp
  with t l fresh show ?thesis by simp
qed

subsection \<open>The string printer runs the tokens of the string\<close>

lemma step_text:
  "c \<noteq> TERM_ESC_CHAR \<Longrightarrow>
   print_step cfg c (STATE_NORMAL, e, st) =
     map_option (\<lambda>st'. (STATE_NORMAL, e, st')) (termRenderChar cfg c st)"
  by (simp add: print_step_def split: option.splits)

lemma step_esc:
  "0 < TERM_ESC_BUFFLINE_SIZE cfg \<Longrightarrow>
   print_step cfg TERM_ESC_CHAR (STATE_NORMAL, e, st) = Some (STATE_ESC, [TERM_ESC_CHAR], st)"
  by (simp add: print_step_def)

lemma step_two:
  "2 < TERM_ESC_BUFFLINE_SIZE cfg \<Longrightarrow> d \<noteq> CHR ''Y'' \<Longrightarrow>
   print_step cfg d (STATE_ESC, [TERM_ESC_CHAR], st) =
     map_option (\<lambda>st'. (STATE_NORMAL, [TERM_ESC_CHAR, d], st'))
       (vt52ProcessSequence cfg [TERM_ESC_CHAR, d] st)"
  by (simp add: print_step_def esc_complete_def esc_overflow_def split: option.splits)

lemma step_Y:
  "2 < TERM_ESC_BUFFLINE_SIZE cfg \<Longrightarrow>
   print_step cfg (CHR ''Y'') (STATE_ESC, [TERM_ESC_CHAR], st) =
     Some (STATE_ESC, [TERM_ESC_CHAR, CHR ''Y''], st)"
  by (simp add: print_step_def esc_complete_def esc_overflow_def)

lemma step_row:
  "3 < TERM_ESC_BUFFLINE_SIZE cfg \<Longrightarrow>
   print_step cfg r (STATE_ESC, [TERM_ESC_CHAR, CHR ''Y''], st) =
     Some (STATE_ESC, [TERM_ESC_CHAR, CHR ''Y'', r], st)"
  by (simp add: print_step_def esc_complete_def esc_overflow_def)

lemma step_col:
  "4 < TERM_ESC_BUFFLINE_SIZE cfg \<Longrightarrow>
   print_step cfg k (STATE_ESC, [TERM_ESC_CHAR, CHR ''Y'', r], st) =
     map_option (\<lambda>st'. (STATE_NORMAL, [TERM_ESC_CHAR, CHR ''Y'', r, k], st'))
       (vt52ProcessSequence cfg [TERM_ESC_CHAR, CHR ''Y'', r, k] st)"
  by (simp add: print_step_def esc_complete_def esc_overflow_def split: option.splits)

lemma print_loop_tokens:
  assumes room: "4 < TERM_ESC_BUFFLINE_SIZE cfg"
  shows "NUL \<notin> set str \<Longrightarrow>
         Option.bind (print_loop cfg str (STATE_NORMAL, e, st)) (flush_pending cfg)
           = run_tokens cfg (tokenize str) st"
proof (induction "length str" arbitrary: str e st rule: less_induct)
  case less
  note IH = less.hyps
  have esc: "TERM_ESC_CHAR \<noteq> NUL" by (simp add: TERM_ESC_CHAR_def NUL_def)
  show ?case
  proof (cases str)
    case Nil
    then show ?thesis by (simp add: flush_pending_def)
  next
    case (Cons c cs)
    with less.prems have c0: "c \<noteq> NUL" and cs0: "NUL \<notin> set cs" by auto
    show ?thesis
    proof (cases "c = TERM_ESC_CHAR")
      case False
      show ?thesis
      proof (cases "termRenderChar cfg c st")
        case None
        with False c0 Cons show ?thesis by (simp add: step_text)
      next
        case (Some st1)
        from IH [of cs e st1] cs0 Cons
        have "Option.bind (print_loop cfg cs (STATE_NORMAL, e, st1)) (flush_pending cfg)
                = run_tokens cfg (tokenize cs) st1" by simp
        with False c0 Cons Some show ?thesis by (simp add: step_text)
      qed
    next
      case True
      note c = True
      from room have s1: "print_step cfg c (STATE_NORMAL, e, st) = Some (STATE_ESC, [TERM_ESC_CHAR], st)"
        unfolding c by (intro step_esc) simp
      show ?thesis
      proof (cases cs)
        case Nil
        with Cons c c0 s1 show ?thesis
          by (simp add: flush_pending_def split: option.splits)
      next
        case (Cons d ds)
        note cs = Cons
        with cs0 have d0: "d \<noteq> NUL" and ds0: "NUL \<notin> set ds" by auto
        show ?thesis
        proof (cases "d = CHR ''Y''")
          case False
          from room False have s2: "print_step cfg d (STATE_ESC, [TERM_ESC_CHAR], st) =
              map_option (\<lambda>st'. (STATE_NORMAL, [TERM_ESC_CHAR, d], st'))
                (vt52ProcessSequence cfg [TERM_ESC_CHAR, d] st)"
            by (intro step_two) simp_all
          show ?thesis
          proof (cases "vt52ProcessSequence cfg [TERM_ESC_CHAR, d] st")
            case None
            with \<open>str = c # cs\<close> cs c c0 d0 s1 s2 False show ?thesis by simp
          next
            case (Some st1)
            from IH [of ds "[TERM_ESC_CHAR, d]" st1] ds0 \<open>str = c # cs\<close> cs
            have "Option.bind (print_loop cfg ds (STATE_NORMAL, [TERM_ESC_CHAR, d], st1)) (flush_pending cfg)
                    = run_tokens cfg (tokenize ds) st1" by simp
            with \<open>str = c # cs\<close> cs c c0 d0 s1 s2 False Some show ?thesis by simp
          qed
        next
          case True
          note d = True
          from room have s2: "print_step cfg d (STATE_ESC, [TERM_ESC_CHAR], st) =
              Some (STATE_ESC, [TERM_ESC_CHAR, CHR ''Y''], st)"
            unfolding d by (intro step_Y) simp
          show ?thesis
          proof (cases ds)
            case Nil
            with \<open>str = c # cs\<close> cs c d c0 d0 s1 s2 show ?thesis
              by (simp add: flush_pending_def split: option.splits)
          next
            case (Cons r ds')
            note ds = Cons
            with ds0 have r0: "r \<noteq> NUL" and ds'0: "NUL \<notin> set ds'" by auto
            from room have s3: "print_step cfg r (STATE_ESC, [TERM_ESC_CHAR, CHR ''Y''], st) =
                Some (STATE_ESC, [TERM_ESC_CHAR, CHR ''Y'', r], st)"
              by (intro step_row) simp
            show ?thesis
            proof (cases ds')
              case Nil
              with \<open>str = c # cs\<close> cs ds c d c0 d0 r0 s1 s2 s3 show ?thesis
                by (simp add: flush_pending_def split: option.splits)
            next
              case (Cons k rest)
              with ds'0 have k0: "k \<noteq> NUL" and rest0: "NUL \<notin> set rest" by auto
              from room have s4: "print_step cfg k (STATE_ESC, [TERM_ESC_CHAR, CHR ''Y'', r], st) =
                  map_option (\<lambda>st'. (STATE_NORMAL, [TERM_ESC_CHAR, CHR ''Y'', r, k], st'))
                    (vt52ProcessSequence cfg [TERM_ESC_CHAR, CHR ''Y'', r, k] st)"
                by (intro step_col)
              show ?thesis
              proof (cases "vt52ProcessSequence cfg [TERM_ESC_CHAR, CHR ''Y'', r, k] st")
                case None
                with \<open>str = c # cs\<close> cs ds Cons c d c0 d0 r0 k0 s1 s2 s3 s4 show ?thesis by simp
              next
                case (Some st1)
                from IH [of rest "[TERM_ESC_CHAR, CHR ''Y'', r, k]" st1] rest0
                  \<open>str = c # cs\<close> cs ds Cons
                have "Option.bind (print_loop cfg rest
                          (STATE_NORMAL, [TERM_ESC_CHAR, CHR ''Y'', r, k], st1)) (flush_pending cfg)
                        = run_tokens cfg (tokenize rest) st1" by simp
                with \<open>str = c # cs\<close> cs ds Cons c d c0 d0 r0 k0 s1 s2 s3 s4 Some show ?thesis
                  by simp
              qed
            qed
          qed
        qed
      qed
    qed
  qed
qed

lemma print_loop_c_string: "print_loop cfg str s = print_loop cfg (c_string str) s"
proof (induction str arbitrary: s)
  case Nil
  then show ?case by (simp add: c_string_def)
next
  case (Cons c cs)
  show ?case
  proof (cases "c = NUL")
    case True
    then show ?thesis by (simp add: c_string_def)
  next
    case False
    with Cons.IH show ?thesis by (simp add: c_string_def split: option.splits)
  qed
qed

lemma c_string_no_NUL: "NUL \<notin> set (c_string str)"
  unfolding c_string_def by (induction str) auto

lemma term_printString_flush:
  "term_printString cfg str st =
     (case Option.bind (print_loop cfg str (STATE_NORMAL, [], st)) (flush_pending cfg) of
        None \<Rightarrow> None
      | Some st2 \<Rightarrow> Some (display_termRefresh st2))"
  by (simp add: term_printString_def flush_pending_def split: option.splits)

lemma term_printString_as_specified:
  assumes room: "4 < TERM_ESC_BUFFLINE_SIZE cfg"
  shows "term_printString cfg str st = print_as_specified cfg str st"
proof -
  have "Option.bind (print_loop cfg str (STATE_NORMAL, [], st)) (flush_pending cfg)
          = Option.bind (print_loop cfg (c_string str) (STATE_NORMAL, [], st)) (flush_pending cfg)"
    using print_loop_c_string [of cfg str] by simp
  also have "\<dots> = run_tokens cfg (tokenize (c_string str)) st"
    by (rule print_loop_tokens [OF room c_string_no_NUL])
  finally show ?thesis
    by (simp add: term_printString_flush print_as_specified_def)
qed

lemma tokenize_bytes: "concat (map token_bytes (tokenize str)) = str"
  by (induction str rule: tokenize.induct) (auto split: list.splits)

text \<open>
  Claim C6. On a well-formed terminal a call of \<^verbatim>\<open>term_printString\<close> returns for every
  string, and of all it sends to the display exactly one call is a refresh, the last one.
  The tokens of the string hold every byte of it, in order. With an escape buffer of more
  than four bytes the call does what the specification says of a full-string render: it
  renders every text token, interprets every sequence token, renders the bytes of a
  sequence left unfinished at the end as text, and then refreshes. Nothing of an
  unfinished sequence is carried to the next call: two calls in a row are two such
  renders, each read from normal mode.
\<close>

theorem term_printString_consumes_string:
  assumes cfg: "config_ok cfg" and ok: "term_ok cfg st"
  shows "(\<exists>st'. term_printString cfg str st = Some st' \<and> term_ok cfg st'
            \<and> display st' = display st @ display_since st st'
            \<and> count_list (display_since st st') TermRefresh = 1
            \<and> last (display st') = TermRefresh)
       \<and> concat (map token_bytes (tokenize (c_string str))) = c_string str
       \<and> (4 < TERM_ESC_BUFFLINE_SIZE cfg \<longrightarrow>
            term_printString cfg str st = print_as_specified cfg str st
            \<and> (\<forall>str2. Option.bind (term_printString cfg str st) (term_printString cfg str2)
                     = Option.bind (print_as_specified cfg str st) (print_as_specified cfg str2)))"
proof (intro conjI impI allI)
  from term_printString_rendered [OF cfg ok, of str] obtain st2 where
    r: "rendered cfg st st2"
    and p: "term_printString cfg str st = Some (display_termRefresh st2)"
    by blast
  let ?st' = "display_termRefresh st2"
  from renderedD(4) [OF r]
  have d: "display ?st' = display st @ display_since st st2 @ [TermRefresh]"
    by (simp add: display_termRefresh_def)
  then have s: "display_since st ?st' = display_since st st2 @ [TermRefresh]"
    by (simp add: display_since_def)
  from renderedD(5) [OF r] have "count_list (display_since st st2) TermRefresh = 0"
    by (simp add: count_list_0_iff)
  with s have c: "count_list (display_since st ?st') TermRefresh = 1" by simp
  from d have l: "last (display ?st') = TermRefresh" by simp
  from d s have e: "display ?st' = display st @ display_since st ?st'" by simp
  have t: "term_ok cfg ?st'" using renderedD(1) [OF r] by (rule term_ok_refresh)
  from p t e c l
  show "\<exists>st'. term_printString cfg str st = Some st' \<and> term_ok cfg st'
            \<and> display st' = display st @ display_since st st'
            \<and> count_list (display_since st st') TermRefresh = 1
            \<and> last (display st') = TermRefresh"
    by blast
next
  show "concat (map token_bytes (tokenize (c_string str))) = c_string str"
    by (rule tokenize_bytes)
next
  assume room: "4 < TERM_ESC_BUFFLINE_SIZE cfg"
  then show "term_printString cfg str st = print_as_specified cfg str st"
    by (rule term_printString_as_specified)
next
  fix str2
  assume room: "4 < TERM_ESC_BUFFLINE_SIZE cfg"
  have "term_printString cfg str2 = print_as_specified cfg str2"
    using term_printString_as_specified [OF room] by (intro ext)
  then show "Option.bind (term_printString cfg str st) (term_printString cfg str2)
                     = Option.bind (print_as_specified cfg str st) (print_as_specified cfg str2)"
    by (simp add: term_printString_as_specified [OF room])
qed

text \<open>A string that ends in the middle of ESC Y: the three bytes appear as text.\<close>

theorem term_printString_consumes_string_witness:
  "config_ok example_config \<and> term_ok example_config (term_state_init example_config)
   \<and> 4 < TERM_ESC_BUFFLINE_SIZE example_config
   \<and> tokenize [CHR ''a'', TERM_ESC_CHAR, CHR ''Y'']
       = [Text CHR ''a'', Text TERM_ESC_CHAR, Text CHR ''Y'']
   \<and> map_option display
        (term_printString example_config [CHR ''a'', TERM_ESC_CHAR, CHR ''Y'']
           (term_state_init example_config))
      = Some [TermChar 0 0 CHR '' '', TermChar 0 0 CHR ''a'', TermCursor 1 0,
              TermChar 1 0 CHR '' '', TermChar 1 0 TERM_ESC_CHAR, TermCursor 2 0,
              TermChar 2 0 CHR '' '', TermChar 2 0 CHR ''Y'', TermCursor 3 0,
              TermRefresh]"
proof -
  have cfg: "config_ok example_config" by (simp add: config_ok_def example_config_def)
  have ok: "term_ok example_config (term_state_init example_config)"
    by (simp add: term_ok_def cursor_in_bounds_def term_state_init_def TERM_SCREEN_SIZE_def
        example_config_def)
  have room: "4 < TERM_ESC_BUFFLINE_SIZE example_config" by (simp add: example_config_def)
  have tk: "tokenize [CHR ''a'', TERM_ESC_CHAR, CHR ''Y'']
       = [Text CHR ''a'', Text TERM_ESC_CHAR, Text CHR ''Y'']"
    by (simp add: TERM_ESC_CHAR_def)
  note t = term_printString_consumes_string [OF cfg ok, of "[CHR ''a'', TERM_ESC_CHAR, CHR ''Y'']"]
  from t room have e: "term_printString example_config [CHR ''a'', TERM_ESC_CHAR, CHR ''Y'']
           (term_state_init example_config)
         = print_as_specified example_config [CHR ''a'', TERM_ESC_CHAR, CHR ''Y'']
           (term_state_init example_config)"
    by blast
  have v: "map_option display
        (term_printString example_config [CHR ''a'', TERM_ESC_CHAR, CHR ''Y'']
           (term_state_init example_config))
      = Some [TermChar 0 0 CHR '' '', TermChar 0 0 CHR ''a'', TermCursor 1 0,
              TermChar 1 0 CHR '' '', TermChar 1 0 TERM_ESC_CHAR, TermCursor 2 0,
              TermChar 2 0 CHR '' '', TermChar 2 0 CHR ''Y'', TermCursor 3 0,
              TermRefresh]"
    unfolding e by code_simp
  from cfg ok room tk v show ?thesis by (intro conjI)
qed

subsection \<open>The dispatch of a submitted line\<close>

lemma sscanf_bounded: "sscanf_command_arg line = (command_token line, command_arg line)"
proof (cases "dropWhile isspace line = []")
  case True
  show ?thesis
    unfolding sscanf_command_arg_def command_token_def command_arg_def first_token_def Let_def True
    by simp
next
  case False
  then show ?thesis
    by (simp only: sscanf_command_arg_def command_token_def command_arg_def first_token_def
        Let_def if_False)
qed

lemma bounded_is_plain:
  assumes tok: "length (first_token line) \<le> 63" and rem: "length (remainder_arg line) \<le> 63"
    and nonl: "CHR 0x0A \<notin> set line"
  shows "command_token line = first_token line \<and> command_arg line = remainder_arg line"
  using sscanf_bounded [of line] sscanf_command_arg_split [OF tok rem nonl] by simp

lemma run_fallback_buffer:
  "run_fallback commands st = call_with_buffer (handlers_named [] commands) st"
proof (induction commands arbitrary: st)
  case Nil
  then show ?case by (simp add: handlers_named_def)
next
  case (Cons c cs)
  show ?case
  proof (cases "c_string (fst c) = []")
    case True
    then have h: "handlers_named [] (c # cs) = snd c # handlers_named [] cs"
      by (simp add: handlers_named_def)
    from True Cons.IH show ?thesis unfolding h by (simp split: option.splits)
  next
    case False
    then have h: "handlers_named [] (c # cs) = handlers_named [] cs"
      by (auto simp: handlers_named_def)
    from False Cons.IH show ?thesis unfolding h by simp
  qed
qed

lemma termInputChar_newline_bounded:
  assumes nl: "chr = CHR 0x0A \<or> chr = CHR 0x0D"
  shows "termInputChar cfg commands chr st =
           (case termRenderChar cfg (CHR 0x0A) st of
              None \<Rightarrow> None
            | Some st1 \<Rightarrow>
                (case dispatch_bounded commands (c_string (inputBuffer st)) st1 of
                   None \<Rightarrow> None
                 | Some st2 \<Rightarrow> finish_line cfg st2))"
proof (cases "termRenderChar cfg (CHR 0x0A) st")
  case None
  then show ?thesis by (simp add: termInputChar_newline_raw [OF nl])
next
  case (Some st1)
  let ?line = "c_string (inputBuffer st)"
  let ?M = "handlers_named (command_token ?line) commands"
  from termRenderChar_input [OF Some] have b: "c_string (inputBuffer st1) = ?line" by simp
  show ?thesis
  proof (cases "?M = []")
    case True
    then have m: "run_matching commands (command_token ?line) (command_arg ?line) (False, st1)
                    = Some (False, st1)"
      by (simp add: run_matching_spec)
    from True have d: "dispatch_bounded commands ?line st1 =
        (if command_token ?line \<noteq> [] then call_with_buffer (handlers_named [] commands) st1
         else Some st1)"
      by (simp add: dispatch_bounded_def)
    show ?thesis
      unfolding termInputChar_newline_raw [OF nl] Some option.case b sscanf_bounded
        fst_conv snd_conv m d
      by (simp add: run_fallback_buffer)
  next
    case False
    then have m: "run_matching commands (command_token ?line) (command_arg ?line) (False, st1)
                    = (case call_handlers ?M (command_arg ?line) st1 of
                         None \<Rightarrow> None | Some st' \<Rightarrow> Some (True, st'))"
      by (simp add: run_matching_spec cong: option.case_cong)
    from False have d: "dispatch_bounded commands ?line st1
                          = call_handlers ?M (command_arg ?line) st1"
      by (simp add: dispatch_bounded_def)
    show ?thesis
      unfolding termInputChar_newline_raw [OF nl] Some option.case b sscanf_bounded
        fst_conv snd_conv m d
      by (simp split: option.splits)
  qed
qed

text \<open>
  Claim C3 (as amended). On newline or carriage return \<^verbatim>\<open>termInputChar\<close> renders a newline
  and splits the line in the buffer into a command token, the first word delimited by
  white space cut to at most 63 bytes, and an argument, at most 63 bytes of what follows
  the token after the white space, up to a newline. It invokes every entry of the
  registry whose name is the token with that argument; if there was none and the token is
  not empty, it invokes every entry with the empty name with the input buffer as it is
  when the entry's turn comes. Whatever was invoked, the input buffer is then cleared and
  the prompt printed. For a line whose first word and rest have at most 63 bytes each and
  that holds no newline, token and argument are the first word and the rest; if moreover
  no handler edits the input buffer, the whole is the dispatch of the specification, where
  every fallback entry receives the whole line. With the entries (help, h) and
  (empty name, u), the line \<open>help\<close> invokes \<open>h\<close> on the empty string and the line
  \<open>put_int foo 42\<close> invokes \<open>u\<close> on \<open>put_int foo 42\<close>; these lines are what typing the keys
  into an empty buffer leaves there.
\<close>

theorem newline_dispatch:
  assumes nl: "chr = CHR 0x0A \<or> chr = CHR 0x0D"
  shows "termInputChar cfg commands chr st =
           (case termRenderChar cfg (CHR 0x0A) st of
              None \<Rightarrow> None
            | Some st1 \<Rightarrow>
                (case dispatch_bounded commands (c_string (inputBuffer st)) st1 of
                   None \<Rightarrow> None
                 | Some st2 \<Rightarrow> finish_line cfg st2))
       \<and> (length (first_token (c_string (inputBuffer st))) \<le> 63
            \<and> length (remainder_arg (c_string (inputBuffer st))) \<le> 63
            \<and> CHR 0x0A \<notin> set (c_string (inputBuffer st)) \<longrightarrow>
          command_token (c_string (inputBuffer st)) = first_token (c_string (inputBuffer st))
          \<and> command_arg (c_string (inputBuffer st)) = remainder_arg (c_string (inputBuffer st)))
       \<and> (length (first_token (c_string (inputBuffer st))) \<le> 63
            \<and> length (remainder_arg (c_string (inputBuffer st))) \<le> 63
            \<and> CHR 0x0A \<notin> set (c_string (inputBuffer st))
            \<and> (\<forall>c\<in>set commands. \<forall>a s s'. snd c a s = Some s' \<longrightarrow>
                  c_string (inputBuffer s') = c_string (inputBuffer s)) \<longrightarrow>
          termInputChar cfg commands chr st = newline_as_specified cfg commands st)
       \<and> (\<forall>st'. termInputChar cfg commands chr st = Some st' \<longrightarrow>
             inputLength st' = 0
             \<and> inputBuffer st' = replicate (TERM_INPUT_BUFFER_SIZE cfg) NUL)
       \<and> (\<forall>s. finish_line cfg s =
             (case term_printString cfg ''> ''
                     (s\<lparr>inputBuffer := replicate (TERM_INPUT_BUFFER_SIZE cfg) NUL,
                        inputLength := 0\<rparr>) of
                None \<Rightarrow> None
              | Some s' \<Rightarrow> Some (display_termRefresh s')))
       \<and> (\<forall>h u s. c_string (inputBuffer s) = ''help'' \<longrightarrow>
             termInputChar cfg [(''help'', h), ([], u)] chr s =
               (case termRenderChar cfg (CHR 0x0A) s of
                  None \<Rightarrow> None
                | Some s1 \<Rightarrow>
                    (case h [] s1 of None \<Rightarrow> None | Some s2 \<Rightarrow> finish_line cfg s2)))
       \<and> (\<forall>h u s. c_string (inputBuffer s) = ''put_int foo 42'' \<longrightarrow>
             termInputChar cfg [(''help'', h), ([], u)] chr s =
               (case termRenderChar cfg (CHR 0x0A) s of
                  None \<Rightarrow> None
                | Some s1 \<Rightarrow>
                    (case u ''put_int foo 42'' s1 of
                       None \<Rightarrow> None
                     | Some s2 \<Rightarrow> finish_line cfg s2)))
       \<and> (\<forall>cmds s. config_ok cfg \<and> term_ok cfg s \<and> inputLength s = 0
                    \<and> inputBuffer s = replicate (TERM_INPUT_BUFFER_SIZE cfg) NUL
                    \<and> 14 < TERM_INPUT_BUFFER_SIZE cfg \<longrightarrow>
             (\<exists>s1. type_keys cfg cmds ''help'' s = Some s1
                \<and> c_string (inputBuffer s1) = ''help'')
             \<and> (\<exists>s1. type_keys cfg cmds ''put_int foo 42'' s = Some s1
                  \<and> c_string (inputBuffer s1) = ''put_int foo 42''))"
proof -
  note eq = termInputChar_newline_bounded [OF nl, of cfg commands st]
  have plain: "length (first_token (c_string (inputBuffer st))) \<le> 63
            \<and> length (remainder_arg (c_string (inputBuffer st))) \<le> 63
            \<and> CHR 0x0A \<notin> set (c_string (inputBuffer st)) \<longrightarrow>
          command_token (c_string (inputBuffer st)) = first_token (c_string (inputBuffer st))
          \<and> command_arg (c_string (inputBuffer st)) = remainder_arg (c_string (inputBuffer st))"
    using bounded_is_plain by blast
  have spec: "length (first_token (c_string (inputBuffer st))) \<le> 63
            \<and> length (remainder_arg (c_string (inputBuffer st))) \<le> 63
            \<and> CHR 0x0A \<notin> set (c_string (inputBuffer st))
            \<and> (\<forall>c\<in>set commands. \<forall>a s s'. snd c a s = Some s' \<longrightarrow>
                  c_string (inputBuffer s') = c_string (inputBuffer s)) \<longrightarrow>
          termInputChar cfg commands chr st = newline_as_specified cfg commands st"
  proof (intro impI, elim conjE)
    assume tok: "length (first_token (c_string (inputBuffer st))) \<le> 63"
      and rem: "length (remainder_arg (c_string (inputBuffer st))) \<le> 63"
      and nonl: "CHR 0x0A \<notin> set (c_string (inputBuffer st))"
      and frame: "\<forall>c\<in>set commands. \<forall>a s s'. snd c a s = Some s' \<longrightarrow>
                  c_string (inputBuffer s') = c_string (inputBuffer s)"
    from termInputChar_newline [OF nl tok rem nonl frame, of cfg]
    show "termInputChar cfg commands chr st = newline_as_specified cfg commands st"
      by (simp add: newline_as_specified_def)
  qed
  have cleared: "\<forall>st'. termInputChar cfg commands chr st = Some st' \<longrightarrow>
             inputLength st' = 0
             \<and> inputBuffer st' = replicate (TERM_INPUT_BUFFER_SIZE cfg) NUL"
  proof (intro allI impI)
    fix st' assume "termInputChar cfg commands chr st = Some st'"
    then obtain st2 where "finish_line cfg st2 = Some st'"
      unfolding eq by (auto split: option.splits)
    then show "inputLength st' = 0
             \<and> inputBuffer st' = replicate (TERM_INPUT_BUFFER_SIZE cfg) NUL"
      by (rule finish_line_input)
  qed
  have prm: "\<forall>s. finish_line cfg s =
             (case term_printString cfg ''> ''
                     (s\<lparr>inputBuffer := replicate (TERM_INPUT_BUFFER_SIZE cfg) NUL,
                        inputLength := 0\<rparr>) of
                None \<Rightarrow> None
              | Some s' \<Rightarrow> Some (display_termRefresh s'))"
    by (simp add: finish_line_def)
  have hlp: "\<forall>h u s. c_string (inputBuffer s) = ''help'' \<longrightarrow>
             termInputChar cfg [(''help'', h), ([], u)] chr s =
               (case termRenderChar cfg (CHR 0x0A) s of
                  None \<Rightarrow> None
                | Some s1 \<Rightarrow>
                    (case h [] s1 of None \<Rightarrow> None | Some s2 \<Rightarrow> finish_line cfg s2))"
    using help_scenario [OF nl] by blast
  have put: "\<forall>h u s. c_string (inputBuffer s) = ''put_int foo 42'' \<longrightarrow>
             termInputChar cfg [(''help'', h), ([], u)] chr s =
               (case termRenderChar cfg (CHR 0x0A) s of
                  None \<Rightarrow> None
                | Some s1 \<Rightarrow>
                    (case u ''put_int foo 42'' s1 of
                       None \<Rightarrow> None
                     | Some s2 \<Rightarrow> finish_line cfg s2))"
    using put_int_scenario [OF nl] by blast
  have typed: "\<forall>cmds s. config_ok cfg \<and> term_ok cfg s \<and> inputLength s = 0
                    \<and> inputBuffer s = replicate (TERM_INPUT_BUFFER_SIZE cfg) NUL
                    \<and> 14 < TERM_INPUT_BUFFER_SIZE cfg \<longrightarrow>
             (\<exists>s1. type_keys cfg cmds ''help'' s = Some s1
                \<and> c_string (inputBuffer s1) = ''help'')
             \<and> (\<exists>s1. type_keys cfg cmds ''put_int foo 42'' s = Some s1
                  \<and> c_string (inputBuffer s1) = ''put_int foo 42'')"
  proof (intro allI impI, elim conjE)
    fix cmds s
    assume c: "config_ok cfg" and ok: "term_ok cfg s" and l: "inputLength s = 0"
      and b: "inputBuffer s = replicate (TERM_INPUT_BUFFER_SIZE cfg) NUL"
      and r: "14 < TERM_INPUT_BUFFER_SIZE cfg"
    have k1: "\<forall>k\<in>set ''help''. k \<noteq> CHR 0x08 \<and> k \<noteq> CHR 0x0A \<and> k \<noteq> CHR 0x0D \<and> k \<noteq> NUL"
      by (simp add: NUL_def)
    have k2: "\<forall>k\<in>set ''put_int foo 42''. k \<noteq> CHR 0x08 \<and> k \<noteq> CHR 0x0A \<and> k \<noteq> CHR 0x0D \<and> k \<noteq> NUL"
      by (simp add: NUL_def)
    from r have r1: "length ''help'' < TERM_INPUT_BUFFER_SIZE cfg"
      and r2: "length ''put_int foo 42'' < TERM_INPUT_BUFFER_SIZE cfg" by simp_all
    from type_keys_fresh [OF c k1 ok l b r1, of cmds] type_keys_fresh [OF c k2 ok l b r2, of cmds]
    show "(\<exists>s1. type_keys cfg cmds ''help'' s = Some s1
                \<and> c_string (inputBuffer s1) = ''help'')
             \<and> (\<exists>s1. type_keys cfg cmds ''put_int foo 42'' s = Some s1
                  \<and> c_string (inputBuffer s1) = ''put_int foo 42'')"
      by blast
  qed
  from eq plain spec cleared prm hlp put typed show ?thesis by (intro conjI)
qed

text \<open>
  Both lines submitted on the example terminal, with handlers that write their tag and
  their argument to the display.
\<close>

theorem newline_dispatch_witness:
  "length (first_token (c_string (inputBuffer (example_line ''help'')))) \<le> 63
   \<and> length (remainder_arg (c_string (inputBuffer (example_line ''help'')))) \<le> 63
   \<and> CHR 0x0A \<notin> set (c_string (inputBuffer (example_line ''help'')))
   \<and> command_token (c_string (inputBuffer (example_line ''put_int foo 42''))) = ''put_int''
   \<and> command_arg (c_string (inputBuffer (example_line ''put_int foo 42''))) = ''foo 42''
   \<and> map_option display
        (termInputChar example_config example_commands (CHR 0x0A) (example_line ''help''))
      = Some ([TermChar 0 0 CHR '' '', TermCursor 0 1] @ map (TermChar 0 0) ''h''
              @ [TermChar 0 1 CHR '' '', TermChar 0 1 CHR ''>'', TermCursor 1 1,
                 TermChar 1 1 CHR '' '', TermChar 1 1 CHR '' '', TermCursor 2 1,
                 TermRefresh, TermRefresh])
   \<and> map_option display
        (termInputChar example_config example_commands (CHR 0x0A) (example_line ''put_int foo 42''))
      = Some ([TermChar 0 0 CHR '' '', TermCursor 0 1] @ map (TermChar 0 0) ''uput_int foo 42''
              @ [TermChar 0 1 CHR '' '', TermChar 0 1 CHR ''>'', TermCursor 1 1,
                 TermChar 1 1 CHR '' '', TermChar 1 1 CHR '' '', TermCursor 2 1,
                 TermRefresh, TermRefresh])
   \<and> termInputChar example_config example_commands (CHR 0x0A) (example_line ''help'')
      = newline_as_specified example_config example_commands (example_line ''help'')
   \<and> map_option inputLength
        (termInputChar example_config example_commands (CHR 0x0A) (example_line ''help''))
      = Some 0"
proof -
  have nl: "CHR 0x0A = CHR 0x0A \<or> CHR 0x0A = CHR 0x0D" by simp
  have h1: "length (first_token (c_string (inputBuffer (example_line ''help'')))) \<le> 63"
    by code_simp
  have h2: "length (remainder_arg (c_string (inputBuffer (example_line ''help'')))) \<le> 63"
    by code_simp
  have h3: "CHR 0x0A \<notin> set (c_string (inputBuffer (example_line ''help'')))"
    by code_simp
  have p1: "command_token (c_string (inputBuffer (example_line ''put_int foo 42''))) = ''put_int''"
    by code_simp
  have p2: "command_arg (c_string (inputBuffer (example_line ''put_int foo 42''))) = ''foo 42''"
    by code_simp
  have frame: "\<forall>c\<in>set example_commands. \<forall>a s s'. snd c a s = Some s' \<longrightarrow>
                  c_string (inputBuffer s') = c_string (inputBuffer s)"
    by (auto simp: example_commands_def example_handler_def)
  note a = newline_dispatch [OF nl, of example_config example_commands "example_line ''help''"]
  note b = newline_dispatch [OF nl, of example_config example_commands
      "example_line ''put_int foo 42''"]
  have ra: "map_option display
        (termInputChar example_config example_commands (CHR 0x0A) (example_line ''help''))
      = Some ([TermChar 0 0 CHR '' '', TermCursor 0 1] @ map (TermChar 0 0) ''h''
              @ [TermChar 0 1 CHR '' '', TermChar 0 1 CHR ''>'', TermCursor 1 1,
                 TermChar 1 1 CHR '' '', TermChar 1 1 CHR '' '', TermCursor 2 1,
                 TermRefresh, TermRefresh])"
    unfolding a [THEN conjunct1] by code_simp
  have rb: "map_option display
        (termInputChar example_config example_commands (CHR 0x0A) (example_line ''put_int foo 42''))
      = Some ([TermChar 0 0 CHR '' '', TermCursor 0 1] @ map (TermChar 0 0) ''uput_int foo 42''
              @ [TermChar 0 1 CHR '' '', TermChar 0 1 CHR ''>'', TermCursor 1 1,
                 TermChar 1 1 CHR '' '', TermChar 1 1 CHR '' '', TermCursor 2 1,
                 TermRefresh, TermRefresh])"
    unfolding b [THEN conjunct1] by code_simp
  from a [THEN conjunct2, THEN conjunct2, THEN conjunct1] h1 h2 h3 frame
  have rs: "termInputChar example_config example_commands (CHR 0x0A) (example_line ''help'')
      = newline_as_specified example_config example_commands (example_line ''help'')"
    by blast
  from ra obtain st' where
    s: "termInputChar example_config example_commands (CHR 0x0A) (example_line ''help'') = Some st'"
    by auto
  with a [THEN conjunct2, THEN conjunct2, THEN conjunct2, THEN conjunct1]
  have "inputLength st' = 0" by blast
  with s have rc: "map_option inputLength
        (termInputChar example_config example_commands (CHR 0x0A) (example_line ''help''))
      = Some 0" by simp
  from h1 h2 h3 p1 p2 ra rb rs rc show ?thesis by (intro conjI)
qed

text \<open>
  Claim C3 as stated fails in three ways. With an input buffer of 128 bytes, a word of 64
  letters invokes the entry named with the first 63 of them on the last one, where the
  dispatch of the specification calls the fallback entry with the whole line (64 keys
  typed into the empty buffer leave that line there); and an argument of 70 bytes reaches
  the handler cut to 63. With two fallback entries of which the first clears the input
  buffer, the second receives the empty string, not the line.
\<close>

theorem newline_dispatch_counterexample:
  "map_option display
     (termInputChar example_wide long_commands (CHR 0x0A) (wide_line (replicate 64 CHR ''a'')))
   = Some ([TermChar 0 0 CHR '' '', TermCursor 0 1] @ map (TermChar 0 0) ''ma''
           @ [TermChar 0 1 CHR '' '', TermChar 0 1 CHR ''>'', TermCursor 1 1,
              TermChar 1 1 CHR '' '', TermChar 1 1 CHR '' '', TermCursor 2 1,
              TermRefresh, TermRefresh])
   \<and> map_option display
       (newline_as_specified example_wide long_commands (wide_line (replicate 64 CHR ''a'')))
     = Some ([TermChar 0 0 CHR '' '', TermCursor 0 1]
             @ map (TermChar 0 0) (CHR ''u'' # replicate 64 CHR ''a'')
             @ [TermChar 0 1 CHR '' '', TermChar 0 1 CHR ''>'', TermCursor 1 1,
                TermChar 1 1 CHR '' '', TermChar 1 1 CHR '' '', TermCursor 2 1,
                TermRefresh, TermRefresh])
   \<and> map_option display
       (termInputChar example_wide example_commands (CHR 0x0A)
          (wide_line (''help '' @ replicate 70 CHR ''b'')))
     = Some ([TermChar 0 0 CHR '' '', TermCursor 0 1]
             @ map (TermChar 0 0) (CHR ''h'' # replicate 63 CHR ''b'')
             @ [TermChar 0 1 CHR '' '', TermChar 0 1 CHR ''>'', TermCursor 1 1,
                TermChar 1 1 CHR '' '', TermChar 1 1 CHR '' '', TermCursor 2 1,
                TermRefresh, TermRefresh])
   \<and> map_option display
       (termInputChar example_config wiping_commands (CHR 0x0A) (example_line ''xyz''))
     = Some ([TermChar 0 0 CHR '' '', TermCursor 0 1]
             @ map (TermChar 0 0) ''wxyz'' @ map (TermChar 0 0) ''u''
             @ [TermChar 0 1 CHR '' '', TermChar 0 1 CHR ''>'', TermCursor 1 1,
                TermChar 1 1 CHR '' '', TermChar 1 1 CHR '' '', TermCursor 2 1,
                TermRefresh, TermRefresh])
   \<and> map_option display
       (newline_as_specified example_config wiping_commands (example_line ''xyz''))
     = Some ([TermChar 0 0 CHR '' '', TermCursor 0 1]
             @ map (TermChar 0 0) ''wxyz'' @ map (TermChar 0 0) ''uxyz''
             @ [TermChar 0 1 CHR '' '', TermChar 0 1 CHR ''>'', TermCursor 1 1,
                TermChar 1 1 CHR '' '', TermChar 1 1 CHR '' '', TermCursor 2 1,
                TermRefresh, TermRefresh])
   \<and> map_option (c_string \<circ> inputBuffer)
       (type_keys example_wide long_commands (replicate 64 CHR ''a'')
          (term_state_init example_wide))
     = Some (replicate 64 CHR ''a'')"
  by code_simp

end
